theory Spec2Isabelle
  imports Main "HOL-Library.Char_ord" "HOL-Library.List_Lexorder" "HOL-Library.Option_ord"
begin

section \<open>Data model\<close>

text \<open>
  The catalog (the Spotify Web API) is outside the repository. Its data is kept in two
  records: \<open>Env\<close>, which a run only reads, and \<open>World\<close>, which a run reads and
  changes. Timestamps are the ISO 8601 strings of the source and are compared as the
  source compares them, with the string order of JavaScript (code unit by code unit,
  a proper prefix first).
\<close>

record Artist =
  artist_genres :: "string list option"

record Track =
  track_id :: string
  track_name :: string
  artist_ids :: "string list"

record SavedTrackItem =
  added_at :: string
  track :: Track

datatype PlaylistItem = TrackRef string | Episode

record Playlist =
  snapshot_id :: string
  items :: "PlaylistItem list"

type_synonym GenreProfile = "string \<rightharpoonup> int"

record CachedProfile =
  playlistId :: string
  snapshotId :: string
  tracksTotal :: nat
  updatedAt :: string
  genres :: GenreProfile

record State =
  lastProcessedAddedAt :: "string option"
  lastProfileRebuildTime :: "(string \<rightharpoonup> string) option"

text \<open>
  What \<^verbatim>\<open>fs.readFile\<close> and \<^verbatim>\<open>JSON.parse\<close> make of \<^verbatim>\<open>.data/state.json\<close>: the file
  cannot be read, it is read and does not parse, or it parses to a state.
\<close>

datatype StateFile = Absent | Unparseable | Holds State

datatype Error =
    CatalogError | CacheWriteError | StateWriteError | TypeError | ConfigError
  | ReadError | SyntaxError

text \<open>
  The trace of a run records what it asks of the outside, in order: a read or a write of
  the state file, a read or a write of the cache file, a request to the catalog (issued,
  whether or not it is answered), and the routing of a liked track to a playlist (the
  line \<^verbatim>\<open>Route "..." -> ...\<close> that \<^verbatim>\<open>main\<close> prints).
\<close>

datatype Event =
    StateRead
  | StateWrite State
  | CacheRead
  | CacheWrite
  | SnapshotFetch string
  | PlaylistPageFetch string nat
  | SavedPageFetch nat
  | ArtistsFetch "string list"
  | TracksAdd string "string list"
  | Routed SavedTrackItem string

text \<open>
  What a run only reads. \<open>targetPlaylists\<close> is the array that
  \<^verbatim>\<open>getTargetPlaylistIds()\<close> returns (the identifiers found in the process environment,
  each once) and \<open>REBUILD_GENRE_PROFILE_INTERVAL\<close> the constant of that name, in hours.
  \<open>saved_tracks\<close> is the list of liked tracks as the catalog lists it, \<open>artist_db\<close> the
  artists it knows, \<open>track_artists\<close> and \<open>track_title\<close> the artists and the name of a
  track, \<open>next_snapshot\<close> the snapshot identifier a playlist gets when it is changed.
  \<open>now_ms k\<close> is the \<open>k\<close>-th reading of the clock, \<open>toISOString\<close> and \<open>date_ms\<close>
  are \<^verbatim>\<open>Date.prototype.toISOString\<close> and \<^verbatim>\<open>new Date(s).getTime()\<close> (\<open>None\<close> for
  \<^verbatim>\<open>NaN\<close>). \<open>faults n\<close> says that the \<open>n\<close>-th fallible operation of the run fails.
\<close>

record Env =
  targetPlaylists :: "string list"
  REBUILD_GENRE_PROFILE_INTERVAL :: int
  saved_tracks :: "SavedTrackItem list"
  artist_db :: "string \<rightharpoonup> Artist"
  track_artists :: "string \<Rightarrow> string list"
  track_title :: "string \<Rightarrow> string"
  next_snapshot :: "string \<Rightarrow> string"
  now_ms :: "nat \<Rightarrow> int"
  toISOString :: "int \<Rightarrow> string"
  date_ms :: "string \<Rightarrow> int option"
  faults :: "nat \<Rightarrow> bool"

text \<open>
  What a run reads and changes: the two files under \<^verbatim>\<open>.data\<close>, the playlists of the
  catalog, the number of clock readings and of fallible operations so far, and the trace.
  \<open>cache_file\<close> is \<open>None\<close> when \<^verbatim>\<open>.data/playlistProfiles.json\<close> cannot be read or
  does not parse.
\<close>

record World =
  state_file :: StateFile
  cache_file :: "CachedProfile list option"
  playlists :: "string \<rightharpoonup> Playlist"
  ticks :: nat
  ops :: nat
  trace :: "Event list"

section \<open>Effects\<close>

text \<open>
  An \<^verbatim>\<open>async\<close> function is a function of the world that returns the new world and
  either the value or the error thrown. \<open>bindM\<close> is \<^verbatim>\<open>await\<close> followed by the rest
  of the body: an error ends the body.
\<close>

type_synonym 'a io = "World \<Rightarrow> (Error + 'a) \<times> World"

definition returnM :: "'a \<Rightarrow> 'a io" where
  "returnM x = (\<lambda>w. (Inr x, w))"

definition throwM :: "Error \<Rightarrow> 'a io" where
  "throwM e = (\<lambda>w. (Inl e, w))"

definition bindM :: "'a io \<Rightarrow> ('a \<Rightarrow> 'b io) \<Rightarrow> 'b io" where
  "bindM m f = (\<lambda>w. case m w of (Inl e, w') \<Rightarrow> (Inl e, w') | (Inr x, w') \<Rightarrow> f x w')"

definition emit :: "Event \<Rightarrow> unit io" where
  "emit ev = (\<lambda>w. (Inr (), w\<lparr>trace := trace w @ [ev]\<rparr>))"

text \<open>
  A request to the catalog or a write to a file may fail. The \<open>n\<close>-th such operation
  of a run fails when \<open>faults env n\<close> holds; \<^verbatim>\<open>callWithRetry\<close> has then given up.
\<close>

definition fallible :: "Env \<Rightarrow> Error \<Rightarrow> unit io" where
  "fallible env err =
     (\<lambda>w. if faults env (ops w) then (Inl err, w\<lparr>ops := Suc (ops w)\<rparr>)
          else (Inr (), w\<lparr>ops := Suc (ops w)\<rparr>))"

text \<open>\<^verbatim>\<open>new Date()\<close>: the \<open>k\<close>-th reading of the clock in a run.\<close>

definition new_Date :: "Env \<Rightarrow> int io" where
  "new_Date env = (\<lambda>w. (Inr (now_ms env (ticks w)), w\<lparr>ticks := Suc (ticks w)\<rparr>))"

text \<open>JavaScript truthiness of an optional string: \<^verbatim>\<open>undefined\<close> and \<^verbatim>\<open>""\<close> are falsy.\<close>

fun truthy :: "string option \<Rightarrow> bool" where
  "truthy None = False"
| "truthy (Some s) = (s \<noteq> [])"

text \<open>
  \<^verbatim>\<open>for (let i = 0; i < xs.length; i += n) ... xs.slice(i, i + n)\<close>: the slices the
  loop visits.
\<close>

function slices :: "nat \<Rightarrow> 'a list \<Rightarrow> 'a list list" where
  "slices n xs = (if n = 0 \<or> xs = [] then [] else take n xs # slices n (drop n xs))"
  by pat_completeness auto
termination
  by (relation "measure (\<lambda>(n, xs). length xs)") auto

text \<open>
  The pages of a paginated listing, \<open>n\<close> items a page: an empty listing answers one
  empty page, and the last page has no \<^verbatim>\<open>next\<close>.
\<close>

definition paginate :: "nat \<Rightarrow> 'a list \<Rightarrow> 'a list list" where
  "paginate n xs = (if xs = [] then [[]] else slices n xs)"

text \<open>A JavaScript \<^verbatim>\<open>Set\<close>, as the list of its elements in insertion order.\<close>

definition set_add :: "'a list \<Rightarrow> 'a \<Rightarrow> 'a list" where
  "set_add s x = (if x \<in> set s then s else s @ [x])"

text \<open>
  An object used as a dictionary, as the list of its entries. The keys are playlist
  identifiers; \<^verbatim>\<open>obj[k] = v\<close> replaces the value of a key that is there and appends
  a new key.
\<close>

fun obj_set :: "(string \<times> 'v) list \<Rightarrow> string \<Rightarrow> 'v \<Rightarrow> (string \<times> 'v) list" where
  "obj_set [] k v = [(k, v)]"
| "obj_set ((k', v') # rest) k v =
     (if k' = k then (k, v) # rest else (k', v') # obj_set rest k v)"

section \<open>Catalog client (spotify.ts)\<close>

definition getPlaylistSnapshot :: "Env \<Rightarrow> string \<Rightarrow> (string \<times> nat option) io" where
  "getPlaylistSnapshot env pid =
     bindM (emit (SnapshotFetch pid)) (\<lambda>_.
     bindM (fallible env CatalogError) (\<lambda>_.
     (\<lambda>w. case playlists w pid of
            None \<Rightarrow> (Inl CatalogError, w)
          | Some p \<Rightarrow> (Inr (snapshot_id p, Some (length (items p))), w))))"

text \<open>
  \<^verbatim>\<open>iteratePlaylistTracks\<close>, run to its end: one request a page, and of the items
  of a page only the tracks are yielded.
\<close>

fun page_tracks :: "Env \<Rightarrow> PlaylistItem list \<Rightarrow> Track list" where
  "page_tracks env [] = []"
| "page_tracks env (TrackRef i # rest) =
     \<lparr>track_id = i, track_name = track_title env i, artist_ids = track_artists env i\<rparr>
       # page_tracks env rest"
| "page_tracks env (Episode # rest) = page_tracks env rest"

fun fetch_playlist_pages ::
  "Env \<Rightarrow> string \<Rightarrow> nat \<Rightarrow> PlaylistItem list list \<Rightarrow> Track list io" where
  "fetch_playlist_pages env pid offset [] = returnM []"
| "fetch_playlist_pages env pid offset (page # rest) =
     bindM (emit (PlaylistPageFetch pid offset)) (\<lambda>_.
     bindM (fallible env CatalogError) (\<lambda>_.
     bindM (fetch_playlist_pages env pid (offset + length page) rest) (\<lambda>ts.
     returnM (page_tracks env page @ ts))))"

definition iteratePlaylistTracks :: "Env \<Rightarrow> string \<Rightarrow> Track list io" where
  "iteratePlaylistTracks env pid =
     (\<lambda>w. case playlists w pid of
            None \<Rightarrow> bindM (emit (PlaylistPageFetch pid 0)) (\<lambda>_.
                    bindM (fallible env CatalogError) (\<lambda>_. throwM CatalogError)) w
          | Some p \<Rightarrow> fetch_playlist_pages env pid 0 (paginate 50 (items p)) w)"

definition getSeveralArtists :: "Env \<Rightarrow> string list \<Rightarrow> Artist option list io" where
  "getSeveralArtists env ids =
     bindM (emit (ArtistsFetch ids)) (\<lambda>_.
     bindM (fallible env CatalogError) (\<lambda>_.
     returnM (map (artist_db env) ids)))"

definition toTrackUri :: "string \<Rightarrow> string" where
  "toTrackUri i = ''spotify:track:'' @ i"

text \<open>The catalog appends the tracks named by the URIs and gives the playlist a new snapshot.\<close>

definition catalog_addTracksToPlaylist :: "Env \<Rightarrow> string \<Rightarrow> string list \<Rightarrow> unit io" where
  "catalog_addTracksToPlaylist env pid uris =
     bindM (emit (TracksAdd pid uris)) (\<lambda>_.
     bindM (fallible env CatalogError) (\<lambda>_.
     (\<lambda>w. case playlists w pid of
            None \<Rightarrow> (Inl CatalogError, w)
          | Some p \<Rightarrow>
              (Inr (), w\<lparr>playlists := (playlists w)(pid \<mapsto>
                 p\<lparr>items := items p @ map (\<lambda>u. TrackRef (drop (length ''spotify:track:'') u)) uris,
                   snapshot_id := next_snapshot env (snapshot_id p)\<rparr>)\<rparr>))))"

text \<open>\<^verbatim>\<open>for await (const track of iteratePlaylistTracks(playlistId)) if (track.id) ids.add(track.id);\<close>\<close>

fun collect_ids :: "Track list \<Rightarrow> string list \<Rightarrow> string list" where
  "collect_ids [] ids = ids"
| "collect_ids (t # ts) ids =
     collect_ids ts (if track_id t \<noteq> [] then set_add ids (track_id t) else ids)"

definition getPlaylistTrackIdsSet :: "Env \<Rightarrow> string \<Rightarrow> string list io" where
  "getPlaylistTrackIdsSet env pid =
     bindM (iteratePlaylistTracks env pid) (\<lambda>ts. returnM (collect_ids ts []))"

record AddResult =
  added :: nat
  skipped :: nat

fun add_batches :: "Env \<Rightarrow> string \<Rightarrow> string list list \<Rightarrow> unit io" where
  "add_batches env pid [] = returnM ()"
| "add_batches env pid (slice # rest) =
     bindM (catalog_addTracksToPlaylist env pid (map toTrackUri slice)) (\<lambda>_.
     add_batches env pid rest)"

definition addTracksToPlaylistIfMissing ::
  "Env \<Rightarrow> string \<Rightarrow> string list \<Rightarrow> AddResult io" where
  "addTracksToPlaylistIfMissing env pid trackIds =
     bindM (getPlaylistTrackIdsSet env pid) (\<lambda>existing.
       let toAdd = filter (\<lambda>i. i \<notin> set existing) trackIds in
       if length toAdd = 0 then returnM \<lparr>added = 0, skipped = length trackIds\<rparr>
       else bindM (add_batches env pid (slices 100 toAdd)) (\<lambda>_.
            returnM \<lparr>added = length toAdd, skipped = length trackIds - length toAdd\<rparr>))"

section \<open>Profile cache (cache.ts)\<close>

text \<open>\<^verbatim>\<open>readFile\<close> catches every error and answers an empty cache.\<close>

definition cache_readFile :: "CachedProfile list io" where
  "cache_readFile =
     bindM (emit CacheRead) (\<lambda>_.
     (\<lambda>w. case cache_file w of None \<Rightarrow> (Inr [], w) | Some ps \<Rightarrow> (Inr ps, w)))"

definition cache_writeFile :: "Env \<Rightarrow> CachedProfile list \<Rightarrow> unit io" where
  "cache_writeFile env data =
     bindM (emit CacheWrite) (\<lambda>_.
     bindM (fallible env CacheWriteError) (\<lambda>_.
     (\<lambda>w. (Inr (), w\<lparr>cache_file := Some data\<rparr>))))"

definition getCachedProfile :: "string \<Rightarrow> string \<Rightarrow> CachedProfile option io" where
  "getCachedProfile pid snap =
     bindM cache_readFile (\<lambda>profiles.
     returnM (find (\<lambda>p. playlistId p = pid \<and> snapshotId p = snap) profiles))"

text \<open>\<^verbatim>\<open>Array.prototype.findIndex\<close>: the first index that satisfies, or \<open>-1\<close>.\<close>

fun findIndex :: "('a \<Rightarrow> bool) \<Rightarrow> 'a list \<Rightarrow> int" where
  "findIndex P [] = - 1"
| "findIndex P (x # xs) =
     (if P x then 0 else (let i = findIndex P xs in if i < 0 then - 1 else i + 1))"

definition putCachedProfile :: "Env \<Rightarrow> CachedProfile \<Rightarrow> unit io" where
  "putCachedProfile env entry =
     bindM cache_readFile (\<lambda>profiles.
       let idx = findIndex (\<lambda>p. playlistId p = playlistId entry \<and> snapshotId p = snapshotId entry)
                   profiles
       in cache_writeFile env
            (if idx \<ge> 0 then profiles[nat idx := entry] else profiles @ [entry]))"

section \<open>Track router (genreRouter.ts)\<close>

text \<open>
  \<^verbatim>\<open>export type GenreProfile = Map<string, number>;\<close>
  A profile maps a genre name to its weight. The weights are counts, kept as
  integers; a key that is absent answers \<^verbatim>\<open>undefined\<close> to \<^verbatim>\<open>get\<close>.
\<close>

text \<open>
  \<^verbatim>\<open>let score = 0; for (const g of trackGenres) score += profile.get(g) ?? 0; return score;\<close>
\<close>

fun score_loop :: "string list \<Rightarrow> GenreProfile \<Rightarrow> int \<Rightarrow> int" where
  "score_loop [] profile score = score"
| "score_loop (g # gs) profile score =
     score_loop gs profile (score + (case profile g of None \<Rightarrow> 0 | Some n \<Rightarrow> n))"

definition scoreTrackAgainstProfile :: "string list \<Rightarrow> GenreProfile \<Rightarrow> int" where
  "scoreTrackAgainstProfile trackGenres profile = score_loop trackGenres profile 0"

text \<open>
  \<^verbatim>\<open>pickBestPlaylist\<close> walks \<^verbatim>\<open>Object.entries(profiles)\<close>; the argument here is that
  list of entries, in the order the iteration yields them. \<^verbatim>\<open>bestId\<close> starts as
  \<^verbatim>\<open>null\<close>, \<^verbatim>\<open>bestScore\<close> as \<^verbatim>\<open>-1\<close>, and an entry replaces the best only
  when its score is strictly greater.
\<close>

fun pick_loop ::
  "(string \<times> GenreProfile) list \<Rightarrow> string list \<Rightarrow> string option \<Rightarrow> int \<Rightarrow> string option" where
  "pick_loop [] trackGenres bestId bestScore = bestId"
| "pick_loop ((pid, prof) # rest) trackGenres bestId bestScore =
     (let s = scoreTrackAgainstProfile trackGenres prof
      in if s > bestScore then pick_loop rest trackGenres (Some pid) s
         else pick_loop rest trackGenres bestId bestScore)"

definition pickBestPlaylist ::
  "string list \<Rightarrow> (string \<times> GenreProfile) list \<Rightarrow> string option" where
  "pickBestPlaylist trackGenres profiles = pick_loop profiles trackGenres None (- 1)"

text \<open>The data-model invariant of a profile: no weight is negative.\<close>

definition profile_ok :: "GenreProfile \<Rightarrow> bool" where
  "profile_ok p \<longleftrightarrow> (\<forall>g n. p g = Some n \<longrightarrow> 0 \<le> n)"



section \<open>Genre profile builder (genreRouter.ts)\<close>

text \<open>\<^verbatim>\<open>for (const a of track.artists) artistIds.add(a.id);\<close> over every track.\<close>

fun add_all :: "string list \<Rightarrow> string list \<Rightarrow> string list" where
  "add_all [] s = s"
| "add_all (a # as) s = add_all as (set_add s a)"

fun collect_artist_ids :: "Track list \<Rightarrow> string list \<Rightarrow> string list" where
  "collect_artist_ids [] s = s"
| "collect_artist_ids (t # ts) s = collect_artist_ids ts (add_all (artist_ids t) s)"

text \<open>\<^verbatim>\<open>for (const g of artist.genres ?? []) counts.set(g, (counts.get(g) ?? 0) + 1);\<close>\<close>

fun count_genres :: "string list \<Rightarrow> GenreProfile \<Rightarrow> GenreProfile" where
  "count_genres [] counts = counts"
| "count_genres (g # gs) counts =
     count_genres gs (counts(g \<mapsto> (case counts g of None \<Rightarrow> 0 | Some n \<Rightarrow> n) + 1))"

text \<open>
  The catalog answers \<^verbatim>\<open>null\<close> for an artist it does not know, and reading
  \<^verbatim>\<open>artist.genres\<close> of \<^verbatim>\<open>null\<close> throws.
\<close>

fun count_artists :: "Artist option list \<Rightarrow> GenreProfile \<Rightarrow> Error + GenreProfile" where
  "count_artists [] counts = Inr counts"
| "count_artists (None # rest) counts = Inl TypeError"
| "count_artists (Some a # rest) counts =
     count_artists rest
       (count_genres (case artist_genres a of None \<Rightarrow> [] | Some gs \<Rightarrow> gs) counts)"

fun count_batches :: "Env \<Rightarrow> string list list \<Rightarrow> GenreProfile \<Rightarrow> GenreProfile io" where
  "count_batches env [] counts = returnM counts"
| "count_batches env (b # bs) counts =
     bindM (getSeveralArtists env b) (\<lambda>artists.
       case count_artists artists counts of
         Inl e \<Rightarrow> throwM e
       | Inr counts' \<Rightarrow> count_batches env bs counts')"

definition buildPlaylistGenreProfile :: "Env \<Rightarrow> string \<Rightarrow> GenreProfile io" where
  "buildPlaylistGenreProfile env pid =
     bindM (getPlaylistSnapshot env pid) (\<lambda>(snapshotId, tracksTotal).
     bindM (getCachedProfile pid snapshotId) (\<lambda>cached.
       case cached of
         Some c \<Rightarrow> returnM (genres c)
       | None \<Rightarrow>
           bindM (iteratePlaylistTracks env pid) (\<lambda>tracks.
             let artistIds = collect_artist_ids tracks [];
                 ids = filter (\<lambda>a. a \<noteq> []) artistIds
             in bindM (count_batches env (slices 50 ids) Map.empty) (\<lambda>counts.
                bindM (new_Date env) (\<lambda>now.
                bindM (putCachedProfile env
                         \<lparr>playlistId = pid, snapshotId = snapshotId,
                          tracksTotal = (case tracksTotal of None \<Rightarrow> length ids | Some t \<Rightarrow> t),
                          updatedAt = toISOString env now,
                          genres = counts\<rparr>) (\<lambda>_.
                returnM counts))))))"

section \<open>Persisted state (state.ts)\<close>

definition empty_state :: State where
  "empty_state = \<lparr>lastProcessedAddedAt = None, lastProfileRebuildTime = None\<rparr>"

text \<open>\<^verbatim>\<open>try { ... } catch { ... }\<close>\<close>

definition catchM :: "'a io \<Rightarrow> (Error \<Rightarrow> 'a io) \<Rightarrow> 'a io" where
  "catchM m h = (\<lambda>w. case m w of (Inl e, w') \<Rightarrow> h e w' | (Inr x, w') \<Rightarrow> (Inr x, w'))"

definition readState_try :: "State io" where
  "readState_try =
     bindM (emit StateRead) (\<lambda>_.
     (\<lambda>w. case state_file w of
            Absent \<Rightarrow> (Inl ReadError, w)
          | Unparseable \<Rightarrow> (Inl SyntaxError, w)
          | Holds s \<Rightarrow> (Inr s, w)))"

definition readState :: "State io" where
  "readState = catchM readState_try (\<lambda>_. returnM empty_state)"

text \<open>A write that fails leaves the file as it was.\<close>

definition writeState :: "Env \<Rightarrow> State \<Rightarrow> unit io" where
  "writeState env s =
     bindM (emit (StateWrite s)) (\<lambda>_.
     bindM (fallible env StateWriteError) (\<lambda>_.
     (\<lambda>w. (Inr (), w\<lparr>state_file := Holds s\<rparr>))))"

section \<open>Orchestrator (index.ts)\<close>

text \<open>
  \<^verbatim>\<open>a > b\<close> and \<^verbatim>\<open>a <= b\<close> on strings; against \<^verbatim>\<open>undefined\<close> both are false.
\<close>

fun js_gt :: "string \<Rightarrow> string option \<Rightarrow> bool" where
  "js_gt a None = False"
| "js_gt a (Some b) = (a > b)"

fun js_le :: "string \<Rightarrow> string option \<Rightarrow> bool" where
  "js_le a None = False"
| "js_le a (Some b) = (a \<le> b)"

text \<open>
  \<^verbatim>\<open>shouldRebuildProfile\<close>. The elapsed hours are compared in milliseconds;
  a date that does not parse gives \<^verbatim>\<open>NaN\<close>, and the comparison is false.
\<close>

fun shouldRebuildProfile :: "Env \<Rightarrow> string option \<Rightarrow> bool io" where
  "shouldRebuildProfile env None = returnM True"
| "shouldRebuildProfile env (Some lastRebuildTime) =
     (if lastRebuildTime = [] then returnM True
      else bindM (new_Date env) (\<lambda>now.
           returnM (case date_ms env lastRebuildTime of
                      None \<Rightarrow> False
                    | Some lastRebuild \<Rightarrow>
                        now - lastRebuild \<ge> REBUILD_GENRE_PROFILE_INTERVAL env * (1000 * 60 * 60))))"

fun rebuild_profiles ::
  "Env \<Rightarrow> (string \<rightharpoonup> string) option \<Rightarrow> string list
     \<Rightarrow> (string \<times> GenreProfile) list \<times> (string \<rightharpoonup> string)
     \<Rightarrow> ((string \<times> GenreProfile) list \<times> (string \<rightharpoonup> string)) io" where
  "rebuild_profiles env lrt [] acc = returnM acc"
| "rebuild_profiles env lrt (pid # rest) acc =
     (let lastRebuildTime = (case lrt of None \<Rightarrow> None | Some m \<Rightarrow> m pid) in
      bindM (shouldRebuildProfile env lastRebuildTime) (\<lambda>needsRebuild.
        if needsRebuild then
          bindM (buildPlaylistGenreProfile env pid) (\<lambda>prof.
          bindM (new_Date env) (\<lambda>now.
          rebuild_profiles env lrt rest
            (obj_set (fst acc) pid prof, (snd acc)(pid \<mapsto> toISOString env now))))
        else
          bindM (buildPlaylistGenreProfile env pid) (\<lambda>prof.
          rebuild_profiles env lrt rest (obj_set (fst acc) pid prof, snd acc))))"

text \<open>\<^verbatim>\<open>for (const g of artist.genres ?? []) genres.add(g);\<close>\<close>

fun collect_genres :: "Artist option list \<Rightarrow> string list \<Rightarrow> Error + string list" where
  "collect_genres [] gs = Inr gs"
| "collect_genres (None # rest) gs = Inl TypeError"
| "collect_genres (Some a # rest) gs =
     collect_genres rest (add_all (case artist_genres a of None \<Rightarrow> [] | Some l \<Rightarrow> l) gs)"

fun genre_batches :: "Env \<Rightarrow> string list list \<Rightarrow> string list \<Rightarrow> string list io" where
  "genre_batches env [] gs = returnM gs"
| "genre_batches env (b # bs) gs =
     bindM (getSeveralArtists env b) (\<lambda>artists.
       case collect_genres artists gs of
         Inl e \<Rightarrow> throwM e
       | Inr gs' \<Rightarrow> genre_batches env bs gs')"

text \<open>
  The destination of one liked track. \<^verbatim>\<open>scores\<close> is sorted by descending score
  (the sort is stable); \<^verbatim>\<open>targetPlaylists[0]\<close> of an empty array is \<^verbatim>\<open>undefined\<close>,
  which as a key is the string \<^verbatim>\<open>"undefined"\<close>.
\<close>

definition route_track ::
  "Env \<Rightarrow> (string \<times> GenreProfile) list \<Rightarrow> SavedTrackItem \<Rightarrow> string io" where
  "route_track env profiles item =
     (let artistIds = filter (\<lambda>a. a \<noteq> []) (artist_ids (track item)) in
      bindM (genre_batches env (slices 50 artistIds) []) (\<lambda>trackGenres.
        let scores = sort_key (\<lambda>e. - snd e)
                       (map (\<lambda>(pid, prof). (pid, scoreTrackAgainstProfile trackGenres prof))
                          profiles);
            target0 = (case targetPlaylists env of [] \<Rightarrow> None | t # _ \<Rightarrow> Some t);
            bestPid = (case scores of [] \<Rightarrow> target0 | e # _ \<Rightarrow> Some (fst e))
        in returnM
             (case pickBestPlaylist trackGenres profiles of
                Some p \<Rightarrow> p
              | None \<Rightarrow> (case bestPid of
                           Some p \<Rightarrow> p
                         | None \<Rightarrow> (case target0 of Some t \<Rightarrow> t | None \<Rightarrow> ''undefined'')))))"

text \<open>\<^verbatim>\<open>(newTrackIdsByPlaylist[best] ??= []).push(track.id);\<close>\<close>

fun obj_push ::
  "(string \<times> string list) list \<Rightarrow> string \<Rightarrow> string \<Rightarrow> (string \<times> string list) list" where
  "obj_push [] k x = [(k, [x])]"
| "obj_push ((k', xs) # rest) k x =
     (if k' = k then (k', xs @ [x]) # rest else (k', xs) # obj_push rest k x)"

text \<open>
  The body of the \<^verbatim>\<open>for await\<close> loop over the liked tracks, on the items of one
  page. The result says whether the loop reached its \<^verbatim>\<open>break\<close>.
\<close>

fun process_items ::
  "Env \<Rightarrow> string option \<Rightarrow> (string \<times> GenreProfile) list \<Rightarrow> SavedTrackItem list
     \<Rightarrow> (string \<times> string list) list \<times> string option
     \<Rightarrow> (bool \<times> (string \<times> string list) list \<times> string option) io" where
  "process_items env watermark profiles [] acc = returnM (False, acc)"
| "process_items env watermark profiles (item # rest) acc =
     (let addedAt = added_at item;
          newestAddedAt = (if \<not> truthy (snd acc) \<or> js_gt addedAt (snd acc)
                           then Some addedAt else snd acc)
      in if truthy watermark \<and> js_le addedAt watermark
         then returnM (True, (fst acc, newestAddedAt))
         else bindM (route_track env profiles item) (\<lambda>best.
              bindM (emit (Routed item best)) (\<lambda>_.
              process_items env watermark profiles rest
                (obj_push (fst acc) best (track_id (track item)), newestAddedAt))))"

fun stream_pages ::
  "Env \<Rightarrow> string option \<Rightarrow> (string \<times> GenreProfile) list \<Rightarrow> nat \<Rightarrow> SavedTrackItem list list
     \<Rightarrow> (string \<times> string list) list \<times> string option
     \<Rightarrow> ((string \<times> string list) list \<times> string option) io" where
  "stream_pages env watermark profiles offset [] acc = returnM acc"
| "stream_pages env watermark profiles offset (page # rest) acc =
     bindM (emit (SavedPageFetch offset)) (\<lambda>_.
     bindM (fallible env CatalogError) (\<lambda>_.
     bindM (process_items env watermark profiles page acc) (\<lambda>r.
       if fst r then returnM (snd r)
       else stream_pages env watermark profiles (offset + length page) rest (snd r))))"

fun write_playlists :: "Env \<Rightarrow> (string \<times> string list) list \<Rightarrow> unit io" where
  "write_playlists env [] = returnM ()"
| "write_playlists env ((pid, ids) # rest) =
     (if length ids = 0 then write_playlists env rest
      else bindM (addTracksToPlaylistIfMissing env pid ids) (\<lambda>res.
           write_playlists env rest))"

definition main :: "Env \<Rightarrow> unit io" where
  "main env =
     bindM readState (\<lambda>state0.
       let state = (case lastProfileRebuildTime state0 of
                      None \<Rightarrow> state0\<lparr>lastProfileRebuildTime := Some Map.empty\<rparr>
                    | Some _ \<Rightarrow> state0)
       in if \<not> truthy (lastProcessedAddedAt state) then
            bindM (new_Date env) (\<lambda>now.
            writeState env
              \<lparr>lastProcessedAddedAt = Some (toISOString env now),
               lastProfileRebuildTime = lastProfileRebuildTime state\<rparr>)
          else if length (targetPlaylists env) = 0 then throwM ConfigError
          else
            bindM (rebuild_profiles env (lastProfileRebuildTime state) (targetPlaylists env)
                     ([], case lastProfileRebuildTime state of None \<Rightarrow> Map.empty | Some m \<Rightarrow> m))
              (\<lambda>built.
            bindM (stream_pages env (lastProcessedAddedAt state) (fst built) 0
                     (paginate 50 (saved_tracks env)) ([], lastProcessedAddedAt state))
              (\<lambda>streamed.
            bindM (write_playlists env (fst streamed)) (\<lambda>_.
              let newestAddedAt = snd streamed;
                  updatedState =
                    (if truthy newestAddedAt \<and>
                        (case newestAddedAt of
                           None \<Rightarrow> False
                         | Some n \<Rightarrow> js_gt n (lastProcessedAddedAt state))
                     then state\<lparr>lastProcessedAddedAt := newestAddedAt\<rparr> else state)
              in writeState env
                   (updatedState\<lparr>lastProfileRebuildTime := Some (snd built)\<rparr>)))))"

text \<open>The watermark a run would load from the state file.\<close>

definition persisted_watermark :: "World \<Rightarrow> string option" where
  "persisted_watermark w =
     (case state_file w of Holds s \<Rightarrow> lastProcessedAddedAt s | _ \<Rightarrow> None)"


text \<open>The state the first-run path writes: the watermark is the clock's reading.\<close>

definition first_run_state :: "Env \<Rightarrow> World \<Rightarrow> State" where
  "first_run_state env w =
     \<lparr>lastProcessedAddedAt = Some (toISOString env (now_ms env (ticks w))),
      lastProfileRebuildTime =
        (case state_file w of
           Holds s \<Rightarrow> (case lastProfileRebuildTime s of None \<Rightarrow> Some Map.empty | Some m \<Rightarrow> Some m)
         | _ \<Rightarrow> Some Map.empty)\<rparr>"

text \<open>The track identifiers a playlist holds, in order.\<close>

definition item_ids :: "PlaylistItem list \<Rightarrow> string list" where
  "item_ids its = concat (map (\<lambda>it. case it of TrackRef i \<Rightarrow> [i] | Episode \<Rightarrow> []) its)"

text \<open>An operation keeps a component \<open>g\<close> of the world when it never changes it.\<close>

definition keeps :: "(World \<Rightarrow> 'b) \<Rightarrow> 'a io \<Rightarrow> bool" where
  "keeps g m \<longleftrightarrow> (\<forall>w. g (snd (m w)) = g w)"

text \<open>The entries of the cache file, and the entry a lookup finds.\<close>

definition cache_contents :: "World \<Rightarrow> CachedProfile list" where
  "cache_contents w = (case cache_file w of None \<Rightarrow> [] | Some ps \<Rightarrow> ps)"

definition cached_entry :: "World \<Rightarrow> string \<Rightarrow> string \<Rightarrow> CachedProfile option" where
  "cached_entry w pid snap =
     find (\<lambda>p. playlistId p = pid \<and> snapshotId p = snap) (cache_contents w)"

text \<open>What \<open>putCachedProfile\<close> leaves in the cache.\<close>

definition cache_put :: "CachedProfile \<Rightarrow> CachedProfile list \<Rightarrow> CachedProfile list" where
  "cache_put entry profiles =
     (let idx = findIndex (\<lambda>p. playlistId p = playlistId entry \<and> snapshotId p = snapshotId entry)
                   profiles
      in if idx \<ge> 0 then profiles[nat idx := entry] else profiles @ [entry])"

text \<open>The requests of one enumeration of a playlist, a page each.\<close>

fun page_events :: "string \<Rightarrow> nat \<Rightarrow> 'a list list \<Rightarrow> Event list" where
  "page_events pid offset [] = []"
| "page_events pid offset (page # rest) =
     PlaylistPageFetch pid offset # page_events pid (offset + length page) rest"

text \<open>
  The artists of a playlist as the builder collects them: the identifiers on the
  playlist's tracks, each once, in order of first appearance, the empty ones dropped.
\<close>

definition playlist_artist_ids :: "Env \<Rightarrow> Playlist \<Rightarrow> string list" where
  "playlist_artist_ids env p =
     filter (\<lambda>a. a \<noteq> []) (collect_artist_ids (page_tracks env (items p)) [])"

text \<open>The genre tags the catalog has for an artist, and the weight of a genre in a profile.\<close>

definition artist_tags :: "Env \<Rightarrow> string \<Rightarrow> string list" where
  "artist_tags env a =
     (case artist_db env a of
        None \<Rightarrow> []
      | Some art \<Rightarrow> (case artist_genres art of None \<Rightarrow> [] | Some gs \<Rightarrow> gs))"

definition weight :: "GenreProfile \<Rightarrow> string \<Rightarrow> int" where
  "weight profile g = (case profile g of None \<Rightarrow> 0 | Some n \<Rightarrow> n)"

section \<open>Runs and their traces\<close>

text \<open>
  The events of the catalog and of the cache: every event but the state file's and the
  routing of a track.
\<close>

fun service_event :: "Event \<Rightarrow> bool" where
  "service_event StateRead = False"
| "service_event (StateWrite s) = False"
| "service_event (Routed item best) = False"
| "service_event ev = True"

text \<open>
  An operation is calm for \<open>P\<close> when it leaves the state file as it is and every event
  it appends to the trace satisfies \<open>P\<close>.
\<close>

definition calm :: "(Event \<Rightarrow> bool) \<Rightarrow> 'a io \<Rightarrow> bool" where
  "calm P m \<longleftrightarrow>
     (\<forall>w. state_file (snd (m w)) = state_file w \<and>
          (\<exists>evs. trace (snd (m w)) = trace w @ evs \<and> list_all P evs))"

text \<open>The events a run of \<open>main\<close> appends to the trace.\<close>

definition new_events :: "Env \<Rightarrow> World \<Rightarrow> Event list" where
  "new_events env w = drop (length (trace w)) (trace (snd (main env w)))"

definition watermark_of :: "StateFile \<Rightarrow> string option" where
  "watermark_of sf = (case sf of Holds s \<Rightarrow> lastProcessedAddedAt s | _ \<Rightarrow> None)"

text \<open>
  A sequence of successful runs: each run starts with the state file as the run before
  left it (the first with \<open>sf\<close>) and ends without an error. The rest of the world, and
  the environment, may differ from run to run.
\<close>

fun successful_runs :: "StateFile \<Rightarrow> (Env \<times> World) list \<Rightarrow> bool" where
  "successful_runs sf [] = True"
| "successful_runs sf ((env, w) # rest) =
     (state_file w = sf \<and>
      (case main env w of
         (Inl e, w') \<Rightarrow> False
       | (Inr u, w') \<Rightarrow> successful_runs (state_file w') rest))"

definition watermark_after :: "Env \<times> World \<Rightarrow> string option" where
  "watermark_after run = persisted_watermark (snd (main (fst run) (snd run)))"

text \<open>Every track a run routes was liked after the watermark the run started with.\<close>

definition routed_after_watermark :: "Env \<times> World \<Rightarrow> bool" where
  "routed_after_watermark run =
     list_all (\<lambda>ev. case ev of
                      Routed item best \<Rightarrow> persisted_watermark (snd run) < Some (added_at item)
                    | _ \<Rightarrow> True)
       (new_events (fst run) (snd run))"

text \<open>
  The instant that a timestamp denotes, for the two forms the program meets: the
  catalog's \<^verbatim>\<open>added_at\<close>, \<^verbatim>\<open>YYYY-MM-DDTHH:MM:SSZ\<close>, and the
  \<^verbatim>\<open>YYYY-MM-DDTHH:MM:SS.mmmZ\<close> of \<^verbatim>\<open>toISOString\<close>. The first 19 characters are fields
  of fixed width, from the year down to the second, so on them the string order is the
  order in time; the milliseconds are the three digits after the point, and 0 when
  there is no point. \<open>earlier a b\<close> says that \<open>a\<close> denotes an instant before \<open>b\<close>.
\<close>

definition digit :: "char \<Rightarrow> nat" where
  "digit c = of_char c - 48"

definition iso_seconds :: "string \<Rightarrow> string" where
  "iso_seconds s = take 19 s"

definition iso_millis :: "string \<Rightarrow> nat" where
  "iso_millis s =
     (case drop 19 s of
        c # a # b # d # rest \<Rightarrow>
          if c = CHR ''.'' then 100 * digit a + 10 * digit b + digit d else 0
      | _ \<Rightarrow> 0)"

definition earlier :: "string \<Rightarrow> string \<Rightarrow> bool" where
  "earlier a b \<longleftrightarrow>
     iso_seconds a < iso_seconds b \<or>
     (iso_seconds a = iso_seconds b \<and> iso_millis a < iso_millis b)"

section \<open>Example data\<close>

definition profA :: GenreProfile where
  "profA = [''rock'' \<mapsto> 5, ''pop'' \<mapsto> 1]"

definition profB :: GenreProfile where
  "profB = [''jazz'' \<mapsto> 4]"

text \<open>
  A small catalog: playlist \<open>plA\<close> holds two tracks and an episode, \<open>plB\<close> is empty;
  two tracks are liked, one after and one before the second of June.
\<close>

definition env0 :: Env where
  "env0 =
     \<lparr>targetPlaylists = [''plA'', ''plB''],
      REBUILD_GENRE_PROFILE_INTERVAL = 24,
      saved_tracks =
        [\<lparr>added_at = ''2024-06-03T10:00:00Z'',
          track = \<lparr>track_id = ''t3'', track_name = ''three'', artist_ids = [''ar2'']\<rparr>\<rparr>,
         \<lparr>added_at = ''2024-06-01T09:00:00Z'',
          track = \<lparr>track_id = ''t2'', track_name = ''two'', artist_ids = [''ar1'']\<rparr>\<rparr>],
      artist_db =
        [''ar1'' \<mapsto> \<lparr>artist_genres = Some [''rock'']\<rparr>,
         ''ar2'' \<mapsto> \<lparr>artist_genres = Some [''jazz'', ''rock'']\<rparr>],
      track_artists =
        (\<lambda>i. if i = ''t1'' then [''ar1'', ''ar2''] else if i = ''t2'' then [''ar1''] else []),
      track_title = (\<lambda>i. i),
      next_snapshot = (\<lambda>s. s @ ''+''),
      now_ms = (\<lambda>k. 1717286400000 + int k),
      toISOString = (\<lambda>t. ''2024-06-02T00:00:00.000Z''),
      date_ms = (\<lambda>s. Some 1717200000000),
      faults = (\<lambda>n. False)\<rparr>"

definition world0 :: World where
  "world0 =
     \<lparr>state_file = Absent,
      cache_file = None,
      playlists =
        [''plA'' \<mapsto> \<lparr>snapshot_id = ''s1'', items = [TrackRef ''t1'', Episode, TrackRef ''t2'']\<rparr>,
         ''plB'' \<mapsto> \<lparr>snapshot_id = ''s2'', items = []\<rparr>],
      ticks = 0,
      ops = 0,
      trace = []\<rparr>"

definition state1 :: State where
  "state1 =
     \<lparr>lastProcessedAddedAt = Some ''2024-06-02T00:00:00.000Z'',
      lastProfileRebuildTime = Some Map.empty\<rparr>"

definition world1 :: World where
  "world1 = world0\<lparr>state_file := Holds state1\<rparr>"

text \<open>
  A first run at half a second past ten, and a track that was liked at ten sharp, in
  the form the catalog gives its timestamps. \<open>worldB\<close> has the state file that first run
  writes; \<open>envB'\<close> is the environment of a run an hour later.
\<close>

definition likeB :: SavedTrackItem where
  "likeB =
     \<lparr>added_at = ''2024-06-03T10:00:00Z'',
      track = \<lparr>track_id = ''t3'', track_name = ''three'', artist_ids = [''ar2'']\<rparr>\<rparr>"

definition envB :: Env where
  "envB = env0\<lparr>saved_tracks := [likeB],
               now_ms := (\<lambda>k. 1717408800500 + int k),
               toISOString := (\<lambda>t. ''2024-06-03T10:00:00.500Z'')\<rparr>"

definition envB' :: Env where
  "envB' = envB\<lparr>now_ms := (\<lambda>k. 1717412400000 + int k),
                toISOString := (\<lambda>t. ''2024-06-03T11:00:00.000Z'')\<rparr>"

definition worldB :: World where
  "worldB = world0\<lparr>state_file :=
              Holds \<lparr>lastProcessedAddedAt = Some ''2024-06-03T10:00:00.500Z'',
                     lastProfileRebuildTime = Some Map.empty\<rparr>\<rparr>"

section \<open>Properties of the track router\<close>

declare slices.simps [simp del]

lemma score_loop_sum:
  "score_loop gs p acc = acc + (\<Sum>g\<leftarrow>gs. case p g of None \<Rightarrow> 0 | Some n \<Rightarrow> n)"
  by (induction gs arbitrary: acc) simp_all

lemma score_sum:
  "scoreTrackAgainstProfile gs p = (\<Sum>g\<leftarrow>gs. case p g of None \<Rightarrow> 0 | Some n \<Rightarrow> n)"
  by (simp add: scoreTrackAgainstProfile_def score_loop_sum)

lemma score_nonneg: "profile_ok p \<Longrightarrow> 0 \<le> scoreTrackAgainstProfile gs p"
  unfolding score_sum profile_ok_def
  by (rule sum_list_nonneg) (auto split: option.splits)

lemma pick_loop_spec:
  "(pick_loop ps tg b bs = b \<and> (\<forall>p \<in> set ps. scoreTrackAgainstProfile tg (snd p) \<le> bs)) \<or>
   (\<exists>pre pid prof post. ps = pre @ (pid, prof) # post \<and> pick_loop ps tg b bs = Some pid \<and>
      bs < scoreTrackAgainstProfile tg prof \<and>
      (\<forall>q \<in> set pre. scoreTrackAgainstProfile tg (snd q) < scoreTrackAgainstProfile tg prof) \<and>
      (\<forall>q \<in> set post. scoreTrackAgainstProfile tg (snd q) \<le> scoreTrackAgainstProfile tg prof))"
proof (induction ps arbitrary: b bs)
  case Nil
  show ?case by simp
next
  case (Cons x ps)
  obtain pid prof where x: "x = (pid, prof)" by (cases x)
  let ?s = "scoreTrackAgainstProfile tg prof"
  show ?case
  proof (cases "bs < ?s")
    case True
    then have step: "pick_loop (x # ps) tg b bs = pick_loop ps tg (Some pid) ?s"
      by (simp add: x)
    from Cons.IH [of "Some pid" ?s] show ?thesis
    proof
      assume h: "pick_loop ps tg (Some pid) ?s = Some pid \<and>
        (\<forall>p\<in>set ps. scoreTrackAgainstProfile tg (snd p) \<le> ?s)"
      have c: "x # ps = [] @ (pid, prof) # ps \<and> pick_loop (x # ps) tg b bs = Some pid \<and>
        bs < ?s \<and> (\<forall>q\<in>set []. scoreTrackAgainstProfile tg (snd q) < ?s) \<and>
        (\<forall>q\<in>set ps. scoreTrackAgainstProfile tg (snd q) \<le> ?s)"
        using h True step by (simp add: x)
      show ?thesis by (rule disjI2, (rule exI)+, rule c)
    next
      assume "\<exists>pre pid' prof' post. ps = pre @ (pid', prof') # post \<and>
        pick_loop ps tg (Some pid) ?s = Some pid' \<and>
        ?s < scoreTrackAgainstProfile tg prof' \<and>
        (\<forall>q\<in>set pre. scoreTrackAgainstProfile tg (snd q) < scoreTrackAgainstProfile tg prof') \<and>
        (\<forall>q\<in>set post. scoreTrackAgainstProfile tg (snd q) \<le> scoreTrackAgainstProfile tg prof')"
      then obtain pre pid' prof' post where d: "ps = pre @ (pid', prof') # post"
        "pick_loop ps tg (Some pid) ?s = Some pid'"
        "?s < scoreTrackAgainstProfile tg prof'"
        "\<forall>q\<in>set pre. scoreTrackAgainstProfile tg (snd q) < scoreTrackAgainstProfile tg prof'"
        "\<forall>q\<in>set post. scoreTrackAgainstProfile tg (snd q) \<le> scoreTrackAgainstProfile tg prof'"
        by blast
      have c: "x # ps = (x # pre) @ (pid', prof') # post \<and>
        pick_loop (x # ps) tg b bs = Some pid' \<and>
        bs < scoreTrackAgainstProfile tg prof' \<and>
        (\<forall>q\<in>set (x # pre). scoreTrackAgainstProfile tg (snd q) < scoreTrackAgainstProfile tg prof') \<and>
        (\<forall>q\<in>set post. scoreTrackAgainstProfile tg (snd q) \<le> scoreTrackAgainstProfile tg prof')"
        using d True step by (simp add: x)
      show ?thesis by (rule disjI2, (rule exI)+, rule c)
    qed
  next
    case False
    then have step: "pick_loop (x # ps) tg b bs = pick_loop ps tg b bs"
      by (simp add: x)
    from Cons.IH [of b bs] show ?thesis
    proof
      assume "pick_loop ps tg b bs = b \<and> (\<forall>p\<in>set ps. scoreTrackAgainstProfile tg (snd p) \<le> bs)"
      with False step show ?thesis by (simp add: x)
    next
      assume "\<exists>pre pid' prof' post. ps = pre @ (pid', prof') # post \<and>
        pick_loop ps tg b bs = Some pid' \<and>
        bs < scoreTrackAgainstProfile tg prof' \<and>
        (\<forall>q\<in>set pre. scoreTrackAgainstProfile tg (snd q) < scoreTrackAgainstProfile tg prof') \<and>
        (\<forall>q\<in>set post. scoreTrackAgainstProfile tg (snd q) \<le> scoreTrackAgainstProfile tg prof')"
      then obtain pre pid' prof' post where d: "ps = pre @ (pid', prof') # post"
        "pick_loop ps tg b bs = Some pid'"
        "bs < scoreTrackAgainstProfile tg prof'"
        "\<forall>q\<in>set pre. scoreTrackAgainstProfile tg (snd q) < scoreTrackAgainstProfile tg prof'"
        "\<forall>q\<in>set post. scoreTrackAgainstProfile tg (snd q) \<le> scoreTrackAgainstProfile tg prof'"
        by blast
      have c: "x # ps = (x # pre) @ (pid', prof') # post \<and>
        pick_loop (x # ps) tg b bs = Some pid' \<and>
        bs < scoreTrackAgainstProfile tg prof' \<and>
        (\<forall>q\<in>set (x # pre). scoreTrackAgainstProfile tg (snd q) < scoreTrackAgainstProfile tg prof') \<and>
        (\<forall>q\<in>set post. scoreTrackAgainstProfile tg (snd q) \<le> scoreTrackAgainstProfile tg prof')"
        using d False step by (simp add: x)
      show ?thesis by (rule disjI2, (rule exI)+, rule c)
    qed
  qed
qed

lemma pick_first_when_all_zero:
  "ps \<noteq> [] \<Longrightarrow> \<forall>p \<in> set ps. scoreTrackAgainstProfile tg (snd p) = 0 \<Longrightarrow>
   pickBestPlaylist tg ps = Some (fst (hd ps))"
proof -
  assume ne: "ps \<noteq> []" and z: "\<forall>p \<in> set ps. scoreTrackAgainstProfile tg (snd p) = 0"
  obtain pid prof rest where ps: "ps = (pid, prof) # rest" using ne by (cases ps) auto
  have s0: "scoreTrackAgainstProfile tg prof = 0" using z ps by simp
  have "pick_loop rest tg (Some pid) 0 = Some pid"
    using pick_loop_spec [of rest tg "Some pid" 0] z ps by fastforce
  then show ?thesis by (simp add: pickBestPlaylist_def ps s0)
qed


text \<open>
  Claim C8. For every genre list and every profile, \<open>scoreTrackAgainstProfile\<close> is the
  sum, over the genres as listed, of the weight the profile gives the genre, where a
  genre that the profile does not have counts 0. The score is a function of the two
  arguments alone: the model takes and returns no world. On the scenario of the
  specification a track tagged pop scores 1 against \<open>{rock: 5, pop: 1}\<close> and 0 against
  \<open>{jazz: 4}\<close>.
\<close>

theorem scoreTrackAgainstProfile_is_sum:
  "scoreTrackAgainstProfile trackGenres profile
     = (\<Sum>g\<leftarrow>trackGenres. case profile g of None \<Rightarrow> 0 | Some n \<Rightarrow> n)
   \<and> scoreTrackAgainstProfile [''pop''] profA = 1
   \<and> scoreTrackAgainstProfile [''pop''] profB = 0"
  by (simp add: scoreTrackAgainstProfile_def score_loop_sum profA_def profB_def)

text \<open>
  Claim C7. For every genre list and every non-empty list of profile entries whose
  weights are not negative, \<open>pickBestPlaylist\<close> returns the identifier of an entry
  whose score is strictly greater than the score of every entry before it and at least
  the score of every entry after it: the highest score, and the first entry in
  iteration order among those that reach it. With no genres every score is 0 and the
  first entry is returned.
\<close>

theorem pickBestPlaylist_first_maximum:
  assumes ne: "profiles \<noteq> []"
    and ok: "\<forall>p \<in> set profiles. profile_ok (snd p)"
  shows "(\<exists>pre pid prof post. profiles = pre @ (pid, prof) # post \<and>
            pickBestPlaylist trackGenres profiles = Some pid \<and>
            (\<forall>q \<in> set pre. scoreTrackAgainstProfile trackGenres (snd q)
                 < scoreTrackAgainstProfile trackGenres prof) \<and>
            (\<forall>q \<in> set post. scoreTrackAgainstProfile trackGenres (snd q)
                 \<le> scoreTrackAgainstProfile trackGenres prof)) \<and>
         (trackGenres = [] \<longrightarrow>
            (\<forall>q \<in> set profiles. scoreTrackAgainstProfile trackGenres (snd q) = 0) \<and>
            pickBestPlaylist trackGenres profiles = Some (fst (hd profiles)))"
proof (rule conjI)
  from ne obtain p where p: "p \<in> set profiles" by (cases profiles) auto
  then have "\<not> scoreTrackAgainstProfile trackGenres (snd p) \<le> - 1"
    using score_nonneg [of "snd p" trackGenres] ok by fastforce
  with p have "\<not> (\<forall>p \<in> set profiles. scoreTrackAgainstProfile trackGenres (snd p) \<le> - 1)"
    by blast
  with pick_loop_spec [of profiles trackGenres None "- 1"]
  show "\<exists>pre pid prof post. profiles = pre @ (pid, prof) # post \<and>
            pickBestPlaylist trackGenres profiles = Some pid \<and>
            (\<forall>q \<in> set pre. scoreTrackAgainstProfile trackGenres (snd q)
                 < scoreTrackAgainstProfile trackGenres prof) \<and>
            (\<forall>q \<in> set post. scoreTrackAgainstProfile trackGenres (snd q)
                 \<le> scoreTrackAgainstProfile trackGenres prof)"
    unfolding pickBestPlaylist_def by blast
next
  show "trackGenres = [] \<longrightarrow>
            (\<forall>q \<in> set profiles. scoreTrackAgainstProfile trackGenres (snd q) = 0) \<and>
            pickBestPlaylist trackGenres profiles = Some (fst (hd profiles))"
  proof
    assume e: "trackGenres = []"
    have z: "\<forall>q \<in> set profiles. scoreTrackAgainstProfile trackGenres (snd q) = 0"
      by (simp add: e scoreTrackAgainstProfile_def)
    with pick_first_when_all_zero [OF ne] show "(\<forall>q \<in> set profiles. scoreTrackAgainstProfile trackGenres (snd q) = 0) \<and>
            pickBestPlaylist trackGenres profiles = Some (fst (hd profiles))" by blast
  qed
qed


theorem pickBestPlaylist_first_maximum_witness:
  "profile_ok profA \<and> profile_ok profB
   \<and> pickBestPlaylist [] [(''A'', profA), (''B'', profB)] = Some ''A''
   \<and> scoreTrackAgainstProfile [] profB = 0"
proof -
  have ne: "[(''A'', profA), (''B'', profB)] \<noteq> []" by simp
  have okA: "profile_ok profA" and okB: "profile_ok profB"
    by (simp_all add: profile_ok_def profA_def profB_def)
  then have ok: "\<forall>p \<in> set [(''A'', profA), (''B'', profB)]. profile_ok (snd p)"
    by simp
  from pickBestPlaylist_first_maximum [OF ne ok, of "[]"]
  have "pickBestPlaylist [] [(''A'', profA), (''B'', profB)] = Some ''A''
        \<and> scoreTrackAgainstProfile [] profB = 0" by simp
  with okA okB show ?thesis by blast
qed

section \<open>Properties of the orchestrator's start\<close>

lemmas io_defs = bindM_def returnM_def throwM_def emit_def fallible_def new_Date_def catchM_def

lemma readState_eq:
  "readState w = (Inr (case state_file w of Holds s \<Rightarrow> s | _ \<Rightarrow> empty_state),
                  w\<lparr>trace := trace w @ [StateRead]\<rparr>)"
  by (simp add: readState_def readState_try_def io_defs split: StateFile.splits)

lemma main_first_run:
  assumes "\<not> truthy (persisted_watermark w)"
  shows "main env w =
     (if faults env (ops w) then Inl StateWriteError else Inr (),
      w\<lparr>trace := trace w @ [StateRead, StateWrite (first_run_state env w)],
        ticks := Suc (ticks w), ops := Suc (ops w),
        state_file := (if faults env (ops w) then state_file w
                       else Holds (first_run_state env w))\<rparr>)"
  using assms
  by (cases "state_file w")
     (auto simp add: main_def readState_eq io_defs writeState_def persisted_watermark_def
        empty_state_def first_run_state_def Let_def split: option.splits)

lemma main_no_targets:
  assumes "targetPlaylists env = []" "truthy (persisted_watermark w)"
  shows "main env w = (Inl ConfigError, w\<lparr>trace := trace w @ [StateRead]\<rparr>)"
  using assms
  by (cases "state_file w")
     (auto simp add: main_def readState_eq io_defs persisted_watermark_def
        Let_def split: option.splits)

text \<open>
  Claim C10. \<open>readState\<close> never throws: in every world it returns a state, and when the
  state file cannot be read or does not parse the state it returns is the empty
  default. The watermark of such a file is thereby lost without an error: the run that
  follows takes the first-run path, writes a state whose watermark is the clock's
  reading and ends without an error (unless that write itself fails).
\<close>

theorem readState_never_throws:
  "readState w = (Inr (case state_file w of Holds s \<Rightarrow> s | _ \<Rightarrow> empty_state),
                  w\<lparr>trace := trace w @ [StateRead]\<rparr>)
   \<and> (state_file w = Absent \<or> state_file w = Unparseable \<longrightarrow>
        fst (readState w) = Inr empty_state
        \<and> main env w =
            (if faults env (ops w) then Inl StateWriteError else Inr (),
             w\<lparr>trace := trace w @ [StateRead, StateWrite (first_run_state env w)],
               ticks := Suc (ticks w), ops := Suc (ops w),
               state_file := (if faults env (ops w) then state_file w
                              else Holds (first_run_state env w))\<rparr>))"
proof (intro conjI impI)
  show "readState w = (Inr (case state_file w of Holds s \<Rightarrow> s | _ \<Rightarrow> empty_state),
                  w\<lparr>trace := trace w @ [StateRead]\<rparr>)"
    by (rule readState_eq)
next
  assume "state_file w = Absent \<or> state_file w = Unparseable"
  then show "fst (readState w) = Inr empty_state"
    by (auto simp add: readState_eq)
next
  assume "state_file w = Absent \<or> state_file w = Unparseable"
  then have "\<not> truthy (persisted_watermark w)"
    by (auto simp add: persisted_watermark_def)
  then show "main env w =
            (if faults env (ops w) then Inl StateWriteError else Inr (),
             w\<lparr>trace := trace w @ [StateRead, StateWrite (first_run_state env w)],
               ticks := Suc (ticks w), ops := Suc (ops w),
               state_file := (if faults env (ops w) then state_file w
                              else Holds (first_run_state env w))\<rparr>)"
    by (rule main_first_run)
qed

theorem readState_never_throws_witness:
  "state_file (world1\<lparr>state_file := Unparseable\<rparr>) = Unparseable
   \<and> fst (readState (world1\<lparr>state_file := Unparseable\<rparr>)) = Inr empty_state
   \<and> fst (main env0 (world1\<lparr>state_file := Unparseable\<rparr>)) = Inr ()
   \<and> persisted_watermark (snd (main env0 (world1\<lparr>state_file := Unparseable\<rparr>)))
       = Some ''2024-06-02T00:00:00.000Z''"
  using readState_never_throws [of "world1\<lparr>state_file := Unparseable\<rparr>" env0]
  by (simp add: env0_def world1_def world0_def persisted_watermark_def first_run_state_def)

text \<open>
  Claim C5. On a first-ever run, when the loaded state has no watermark, the
  orchestrator reads the clock, writes a state whose watermark is that reading and
  stops. The run's whole effect is one state read and one state write: no liked track
  is streamed or routed, no request goes to the catalog, and the playlists and the
  cache are as they were.
\<close>

theorem main_first_run_initialises_watermark:
  assumes "\<not> truthy (persisted_watermark w)"
  shows "main env w =
     (if faults env (ops w) then Inl StateWriteError else Inr (),
      w\<lparr>trace := trace w @ [StateRead, StateWrite (first_run_state env w)],
        ticks := Suc (ticks w), ops := Suc (ops w),
        state_file := (if faults env (ops w) then state_file w
                       else Holds (first_run_state env w))\<rparr>)
     \<and> lastProcessedAddedAt (first_run_state env w)
         = Some (toISOString env (now_ms env (ticks w)))
     \<and> playlists (snd (main env w)) = playlists w
     \<and> cache_file (snd (main env w)) = cache_file w"
  using main_first_run [OF assms, of env] by (simp add: first_run_state_def)

theorem main_first_run_initialises_watermark_witness:
  "truthy (persisted_watermark world0) = False
   \<and> main env0 world0 =
       (Inr (),
        world0\<lparr>trace := [StateRead,
                  StateWrite \<lparr>lastProcessedAddedAt = Some ''2024-06-02T00:00:00.000Z'',
                             lastProfileRebuildTime = Some Map.empty\<rparr>],
          ticks := 1, ops := 1,
          state_file := Holds \<lparr>lastProcessedAddedAt = Some ''2024-06-02T00:00:00.000Z'',
                               lastProfileRebuildTime = Some Map.empty\<rparr>\<rparr>)"
proof -
  have h: "\<not> truthy (persisted_watermark world0)"
    by (simp add: persisted_watermark_def world0_def)
  from main_first_run_initialises_watermark [OF h, of env0] h show ?thesis
    by (simp add: env0_def world0_def first_run_state_def)
qed

text \<open>
  Claim C4, as the code has it. The claim says that with no target playlist the run
  fails before any state I/O. The code reads the state first, and looks at the
  configuration only on the incremental path. With no target playlist: when the loaded
  state has a watermark the run fails with the configuration error after one state
  read, with no state write and no request to the catalog; when it has none the run
  takes the first-run path, whose only effects are the state read and the state write,
  and does not report the configuration error.
\<close>

theorem main_no_targets_fails_after_state_read:
  assumes "targetPlaylists env = []"
  shows "(if truthy (persisted_watermark w)
          then main env w = (Inl ConfigError, w\<lparr>trace := trace w @ [StateRead]\<rparr>)
          else fst (main env w) \<noteq> Inl ConfigError
               \<and> trace (snd (main env w))
                   = trace w @ [StateRead, StateWrite (first_run_state env w)])
         \<and> playlists (snd (main env w)) = playlists w
         \<and> cache_file (snd (main env w)) = cache_file w"
proof (cases "truthy (persisted_watermark w)")
  case True
  with main_no_targets [OF assms True] show ?thesis by simp
next
  case False
  with main_first_run [OF False, of env] show ?thesis by simp
qed

theorem main_no_targets_fails_after_state_read_witness:
  "targetPlaylists (env0\<lparr>targetPlaylists := []\<rparr>) = []
   \<and> truthy (persisted_watermark world1)
   \<and> main (env0\<lparr>targetPlaylists := []\<rparr>) world1
       = (Inl ConfigError, world1\<lparr>trace := [StateRead]\<rparr>)"
proof -
  have h: "targetPlaylists (env0\<lparr>targetPlaylists := []\<rparr>) = []" by simp
  have t: "truthy (persisted_watermark world1)"
    by (simp add: persisted_watermark_def world1_def state1_def)
  from main_no_targets_fails_after_state_read [OF h, of world1] t show ?thesis
    by (simp add: world1_def world0_def)
qed

text \<open>
  Claim C4 as it is written fails on both paths. With no target playlist and a watermark
  in the state file, the state is read before the configuration error; with no target
  playlist and no state file, the state is read and written and there is no
  configuration error.
\<close>

theorem main_no_targets_counterexample:
  "fst (main (env0\<lparr>targetPlaylists := []\<rparr>) world1) = Inl ConfigError
   \<and> trace (snd (main (env0\<lparr>targetPlaylists := []\<rparr>) world1)) = [StateRead]
   \<and> fst (main (env0\<lparr>targetPlaylists := []\<rparr>) world0) = Inr ()
   \<and> state_file (snd (main (env0\<lparr>targetPlaylists := []\<rparr>) world0))
       = Holds \<lparr>lastProcessedAddedAt = Some ''2024-06-02T00:00:00.000Z'',
                lastProfileRebuildTime = Some Map.empty\<rparr>"
proof -
  have a: "main (env0\<lparr>targetPlaylists := []\<rparr>) world1
             = (Inl ConfigError, world1\<lparr>trace := trace world1 @ [StateRead]\<rparr>)"
    by (rule main_no_targets) (simp_all add: persisted_watermark_def world1_def state1_def)
  have b: "\<not> truthy (persisted_watermark world0)"
    by (simp add: persisted_watermark_def world0_def)
  show ?thesis
    using a main_first_run [OF b, of "env0\<lparr>targetPlaylists := []\<rparr>"]
    by (simp add: env0_def world1_def world0_def first_run_state_def)
qed

section \<open>Properties of the catalog client\<close>

lemma keepsD: "keeps g m \<Longrightarrow> g (snd (m w)) = g w"
  by (simp add: keeps_def)

lemma keepsD2: "keeps g m \<Longrightarrow> m w = (r, w') \<Longrightarrow> g w' = g w"
  by (auto simp add: keeps_def dest: spec [of _ w])

lemma keeps_returnM [intro!]: "keeps g (returnM x)"
  by (simp add: keeps_def returnM_def)

lemma keeps_throwM [intro!]: "keeps g (throwM e)"
  by (simp add: keeps_def throwM_def)

lemma keeps_bindM [intro!]:
  assumes "keeps g m" and "\<And>x. keeps g (f x)"
  shows "keeps g (bindM m f)"
  unfolding keeps_def
proof
  fix w
  obtain r w1 where m: "m w = (r, w1)" by (cases "m w")
  have g1: "g w1 = g w" using assms(1) m by (rule keepsD2)
  show "g (snd (bindM m f w)) = g w"
  proof (cases r)
    case (Inl e)
    then show ?thesis by (simp add: bindM_def m g1)
  next
    case (Inr x)
    have "g (snd (f x w1)) = g w1" using assms(2) by (rule keepsD)
    then show ?thesis by (simp add: bindM_def m Inr g1)
  qed
qed

lemma keeps_emit:
  "(\<And>w t. g (w\<lparr>trace := t\<rparr>) = g w) \<Longrightarrow> keeps g (emit ev)"
  by (simp add: keeps_def emit_def)

lemma keeps_fallible:
  "(\<And>w n. g (w\<lparr>ops := n\<rparr>) = g w) \<Longrightarrow> keeps g (fallible env err)"
  by (simp add: keeps_def fallible_def)

lemma keeps_new_Date:
  "(\<And>w n. g (w\<lparr>ticks := n\<rparr>) = g w) \<Longrightarrow> keeps g (new_Date env)"
  by (simp add: keeps_def new_Date_def)

lemma slices_Nil [simp]: "slices n [] = []"
  by (simp add: slices.simps)

lemma slices_step: "0 < n \<Longrightarrow> xs \<noteq> [] \<Longrightarrow> slices n xs = take n xs # slices n (drop n xs)"
  by (subst slices.simps) simp

lemma concat_slices: "0 < n \<Longrightarrow> concat (slices n xs) = xs"
proof (induction n xs rule: slices.induct)
  case (1 n xs)
  show ?case
  proof (cases "xs = []")
    case True
    then show ?thesis by simp
  next
    case False
    with 1 show ?thesis by (simp add: slices_step)
  qed
qed

lemma concat_paginate: "0 < n \<Longrightarrow> concat (paginate n xs) = xs"
  by (simp add: paginate_def concat_slices)

lemma page_tracks_append: "page_tracks env (xs @ ys) = page_tracks env xs @ page_tracks env ys"
  by (induction env xs rule: page_tracks.induct) simp_all

lemma page_tracks_ids: "map track_id (page_tracks env its) = item_ids its"
  by (induction env its rule: page_tracks.induct) (simp_all add: item_ids_def)

lemma bindM_InrD:
  "bindM m f w = (Inr y, w') \<Longrightarrow> \<exists>x w1. m w = (Inr x, w1) \<and> f x w1 = (Inr y, w')"
  by (auto simp add: bindM_def split: prod.splits sum.splits)

lemma keeps_playlists_fetch_pages:
  "keeps playlists (fetch_playlist_pages env pid off pages)"
  by (induction pages arbitrary: off) (auto intro!: keeps_emit keeps_fallible)

lemma fetch_pages_result:
  "fetch_playlist_pages env pid off pages w = (Inr ts, w') \<Longrightarrow>
   ts = page_tracks env (concat pages)"
proof (induction pages arbitrary: off w ts w')
  case Nil
  then show ?case by (simp add: returnM_def)
next
  case (Cons page rest)
  from Cons.prems obtain ts' w2 w3 where
    r: "fetch_playlist_pages env pid (off + length page) rest w2 = (Inr ts', w3)"
    and e: "returnM (page_tracks env page @ ts') w3 = (Inr ts, w')"
    by (auto dest!: bindM_InrD)
  from Cons.IH [OF r] e show ?case
    by (simp add: returnM_def page_tracks_append)
qed


lemma keeps_playlists_iterate: "keeps playlists (iteratePlaylistTracks env pid)"
  unfolding keeps_def
proof
  fix w
  show "playlists (snd (iteratePlaylistTracks env pid w)) = playlists w"
  proof (cases "playlists w pid")
    case None
    have "keeps playlists (bindM (emit (PlaylistPageFetch pid 0)) (\<lambda>_.
                    bindM (fallible env CatalogError) (\<lambda>_. throwM CatalogError) :: Track list io))"
      by (auto intro!: keeps_emit keeps_fallible)
    then show ?thesis using None by (simp add: iteratePlaylistTracks_def keepsD)
  next
    case (Some p)
    then show ?thesis
      by (simp add: iteratePlaylistTracks_def keepsD [OF keeps_playlists_fetch_pages])
  qed
qed

lemma iterate_result:
  assumes "iteratePlaylistTracks env pid w = (Inr ts, w')"
  shows "\<exists>p. playlists w pid = Some p \<and> ts = page_tracks env (items p)"
proof (cases "playlists w pid")
  case None
  with assms show ?thesis
    by (auto simp add: iteratePlaylistTracks_def throwM_def dest!: bindM_InrD)
next
  case (Some p)
  with assms have "fetch_playlist_pages env pid 0 (paginate 50 (items p)) w = (Inr ts, w')"
    by (simp add: iteratePlaylistTracks_def)
  from fetch_pages_result [OF this] Some show ?thesis
    by (simp add: concat_paginate)
qed

lemma set_set_add [simp]: "set (set_add s x) = insert x (set s)"
  by (auto simp add: set_add_def)

lemma set_collect_ids:
  "set (collect_ids ts acc) = set acc \<union> (track_id ` set ts - {[]})"
  by (induction ts arbitrary: acc) auto

lemma keeps_playlists_getIds: "keeps playlists (getPlaylistTrackIdsSet env pid)"
  unfolding getPlaylistTrackIdsSet_def
  by (intro keeps_bindM keeps_playlists_iterate keeps_returnM)

lemma getIds_result:
  assumes "getPlaylistTrackIdsSet env pid w = (Inr ex, w')"
  shows "\<exists>p. playlists w pid = Some p \<and> set ex = set (item_ids (items p)) - {[]}
             \<and> playlists w' = playlists w"
proof -
  from assms obtain ts w1 where it: "iteratePlaylistTracks env pid w = (Inr ts, w1)"
    and ex: "ex = collect_ids ts []"
    unfolding getPlaylistTrackIdsSet_def
    by (auto simp add: returnM_def dest!: bindM_InrD)
  from iterate_result [OF it] obtain p where p: "playlists w pid = Some p"
    and ts: "ts = page_tracks env (items p)" by blast
  have "track_id ` set ts = set (item_ids (items p))"
    using page_tracks_ids [of env "items p"] ts by (metis set_map)
  then have "set ex = set (item_ids (items p)) - {[]}"
    by (simp add: ex set_collect_ids)
  moreover have "playlists w' = playlists w"
    using keepsD2 [OF keeps_playlists_getIds assms] .
  ultimately show ?thesis using p by blast
qed

lemma drop_toTrackUri: "drop (length ''spotify:track:'') (toTrackUri i) = i"
  by (simp add: toTrackUri_def)

lemma catalog_add_result:
  assumes "catalog_addTracksToPlaylist env pid (map toTrackUri slice) w = (Inr u, w')"
  shows "\<exists>p. playlists w pid = Some p \<and>
            playlists w' = (playlists w)(pid \<mapsto>
               p\<lparr>items := items p @ map TrackRef slice,
                 snapshot_id := next_snapshot env (snapshot_id p)\<rparr>)"
proof -
  have eq: "map (\<lambda>u. TrackRef (drop (length ''spotify:track:'') u)) (map toTrackUri slice)
              = map TrackRef slice"
    by (simp add: toTrackUri_def)
  show ?thesis
    using assms unfolding catalog_addTracksToPlaylist_def eq
    by (auto simp add: io_defs split: if_splits option.splits)
qed

lemma add_batches_result:
  "add_batches env pid batches w = (Inr u, w') \<Longrightarrow> playlists w pid = Some p \<Longrightarrow>
   \<exists>p'. playlists w' = (playlists w)(pid \<mapsto> p') \<and>
         items p' = items p @ map TrackRef (concat batches)"
proof (induction batches arbitrary: w p)
  case Nil
  then have "playlists w' = (playlists w)(pid \<mapsto> p)"
    by (auto simp add: returnM_def)
  then show ?case by auto
next
  case (Cons b bs)
  from Cons.prems(1) obtain u1 w1 where
    a: "catalog_addTracksToPlaylist env pid (map toTrackUri b) w = (Inr u1, w1)"
    and r: "add_batches env pid bs w1 = (Inr u, w')"
    by (auto dest!: bindM_InrD)
  from catalog_add_result [OF a] Cons.prems(2)
  have w1: "playlists w1 = (playlists w)(pid \<mapsto>
               p\<lparr>items := items p @ map TrackRef b,
                 snapshot_id := next_snapshot env (snapshot_id p)\<rparr>)"
    by auto
  then have "playlists w1 pid = Some (p\<lparr>items := items p @ map TrackRef b,
                 snapshot_id := next_snapshot env (snapshot_id p)\<rparr>)" by simp
  from Cons.IH [OF r this] obtain p' where
    p': "playlists w' = (playlists w1)(pid \<mapsto> p')"
    "items p' = items (p\<lparr>items := items p @ map TrackRef b,
                 snapshot_id := next_snapshot env (snapshot_id p)\<rparr>) @ map TrackRef (concat bs)"
    by blast
  have "playlists w' = (playlists w)(pid \<mapsto> p')"
    unfolding p'(1) w1 by simp
  with p'(2) show ?case by (intro exI [of _ p']) simp
qed

lemma fetch_pages_no_faults:
  "\<forall>n. \<not> faults env n \<Longrightarrow> \<exists>ts. fst (fetch_playlist_pages env pid off pages w) = Inr ts"
proof (induction pages arbitrary: off w)
  case Nil
  show ?case by (simp add: returnM_def)
next
  case (Cons page rest)
  let ?w2 = "w\<lparr>trace := trace w @ [PlaylistPageFetch pid off], ops := Suc (ops w)\<rparr>"
  from Cons.IH [OF Cons.prems, of "off + length page" ?w2]
  obtain ts where "fst (fetch_playlist_pages env pid (off + length page) rest ?w2) = Inr ts"
    by blast
  then obtain w3 where "fetch_playlist_pages env pid (off + length page) rest ?w2 = (Inr ts, w3)"
    by (metis prod.collapse)
  with Cons.prems show ?case by (simp add: io_defs)
qed

lemma getIds_no_faults:
  assumes "\<forall>n. \<not> faults env n" "playlists w pid = Some p"
  shows "\<exists>ex. fst (getPlaylistTrackIdsSet env pid w) = Inr ex"
proof -
  from fetch_pages_no_faults [OF assms(1), of pid 0 "paginate 50 (items p)" w]
  obtain ts w1 where "fetch_playlist_pages env pid 0 (paginate 50 (items p)) w = (Inr ts, w1)"
    by (metis prod.collapse)
  with assms(2) show ?thesis
    by (simp add: getPlaylistTrackIdsSet_def iteratePlaylistTracks_def io_defs)
qed

lemma add_all_present:
  assumes p: "playlists w pid = Some p"
    and sub: "set trackIds \<subseteq> set (item_ids (items p))"
    and ne: "[] \<notin> set trackIds"
  shows "playlists (snd (addTracksToPlaylistIfMissing env pid trackIds w)) = playlists w"
    and "addTracksToPlaylistIfMissing env pid trackIds w = (Inr r, w') \<Longrightarrow>
           r = \<lparr>added = 0, skipped = length trackIds\<rparr>"
    and "\<forall>n. \<not> faults env n \<Longrightarrow>
           fst (addTracksToPlaylistIfMissing env pid trackIds w)
             = Inr \<lparr>added = 0, skipped = length trackIds\<rparr>"
proof -
  obtain g w1 where g: "getPlaylistTrackIdsSet env pid w = (g, w1)"
    by (cases "getPlaylistTrackIdsSet env pid w")
  have k: "playlists w1 = playlists w" using keepsD2 [OF keeps_playlists_getIds g] .
  have succ: "addTracksToPlaylistIfMissing env pid trackIds w
                = (Inr \<lparr>added = 0, skipped = length trackIds\<rparr>, w1)" if "g = Inr ex" for ex
  proof -
    from getIds_result [of env pid w ex w1] g that p
    have "set ex = set (item_ids (items p)) - {[]}" by auto
    with sub ne have "filter (\<lambda>i. i \<notin> set ex) trackIds = []"
      by (auto simp add: filter_empty_conv)
    then show ?thesis
      by (simp add: addTracksToPlaylistIfMissing_def bindM_def g that returnM_def)
  qed
  have fail: "addTracksToPlaylistIfMissing env pid trackIds w = (Inl e, w1)" if "g = Inl e" for e
    by (simp add: addTracksToPlaylistIfMissing_def bindM_def g that)
  show "playlists (snd (addTracksToPlaylistIfMissing env pid trackIds w)) = playlists w"
    using succ fail k by (cases g) auto
  show "r = \<lparr>added = 0, skipped = length trackIds\<rparr>"
    if "addTracksToPlaylistIfMissing env pid trackIds w = (Inr r, w')"
    using succ fail that by (cases g) auto
  show "fst (addTracksToPlaylistIfMissing env pid trackIds w)
             = Inr \<lparr>added = 0, skipped = length trackIds\<rparr>" if "\<forall>n. \<not> faults env n"
  proof -
    from getIds_no_faults [OF that p] g obtain ex where "g = Inr ex" by auto
    from succ [OF this] show ?thesis by simp
  qed
qed


lemma item_ids_append: "item_ids (xs @ ys) = item_ids xs @ item_ids ys"
  by (simp add: item_ids_def)

lemma item_ids_TrackRef: "item_ids (map TrackRef xs) = xs"
  by (induction xs) (simp_all add: item_ids_def)

lemma add_first_call:
  assumes run: "addTracksToPlaylistIfMissing env pid trackIds w = (Inr r, w')"
    and ne: "[] \<notin> set trackIds"
  shows "\<exists>p p'. playlists w pid = Some p \<and> playlists w' = (playlists w)(pid \<mapsto> p') \<and>
           items p' = items p @ map TrackRef (filter (\<lambda>i. i \<notin> set (item_ids (items p))) trackIds) \<and>
           added r = length (filter (\<lambda>i. i \<notin> set (item_ids (items p))) trackIds) \<and>
           skipped r = length trackIds - added r"
proof -
  from run obtain ex w1 where g: "getPlaylistTrackIdsSet env pid w = (Inr ex, w1)"
    and rest: "(let toAdd = filter (\<lambda>i. i \<notin> set ex) trackIds in
       if length toAdd = 0 then returnM \<lparr>added = 0, skipped = length trackIds\<rparr>
       else bindM (add_batches env pid (slices 100 toAdd)) (\<lambda>_.
            returnM \<lparr>added = length toAdd, skipped = length trackIds - length toAdd\<rparr>)) w1
         = (Inr r, w')"
    unfolding addTracksToPlaylistIfMissing_def by (blast dest!: bindM_InrD)
  from getIds_result [OF g] obtain p where p: "playlists w pid = Some p"
    and ex: "set ex = set (item_ids (items p)) - {[]}" and k: "playlists w1 = playlists w"
    by blast
  let ?toAdd = "filter (\<lambda>i. i \<notin> set (item_ids (items p))) trackIds"
  have f: "filter (\<lambda>i. i \<notin> set ex) trackIds = ?toAdd"
    using ne ex by (intro filter_cong) auto
  show ?thesis
  proof (cases "?toAdd = []")
    case True
    with rest f have "r = \<lparr>added = 0, skipped = length trackIds\<rparr>" and "w' = w1"
      by (simp_all add: returnM_def)
    moreover have "playlists w1 = (playlists w)(pid \<mapsto> p)" using k p by auto
    ultimately show ?thesis using p True by (intro exI [of _ p]) simp
  next
    case False
    with rest f obtain u w2 where b: "add_batches env pid (slices 100 ?toAdd) w1 = (Inr u, w2)"
      and r: "returnM \<lparr>added = length ?toAdd, skipped = length trackIds - length ?toAdd\<rparr> w2
                = (Inr r, w')"
      by (auto simp add: Let_def dest!: bindM_InrD)
    from p k have "playlists w1 pid = Some p" by simp
    from add_batches_result [OF b this] obtain p' where
      "playlists w2 = (playlists w1)(pid \<mapsto> p')"
      "items p' = items p @ map TrackRef (concat (slices 100 ?toAdd))" by blast
    with r k p show ?thesis
      by (intro exI [of _ p] exI [of _ p']) (auto simp add: returnM_def concat_slices)
  qed
qed

text \<open>
  Claim C9. \<open>addTracksToPlaylistIfMissing\<close> is idempotent. For every playlist and every
  list of (non-empty) track identifiers, a call that succeeds appends to the playlist
  exactly the identifiers of the list that the playlist did not hold, and reports their
  number as added and the rest as skipped. A second call with the same list, in the world
  the first call left, changes no playlist; when it returns it reports \<open>added = 0\<close> and
  every identifier skipped, and it does return when no request fails.
\<close>

theorem addTracksToPlaylistIfMissing_idempotent:
  assumes run: "addTracksToPlaylistIfMissing env pid trackIds w = (Inr r, w')"
    and ne: "[] \<notin> set trackIds"
  shows "\<exists>p p'. playlists w pid = Some p \<and> playlists w' = (playlists w)(pid \<mapsto> p') \<and>
           items p' = items p @ map TrackRef (filter (\<lambda>i. i \<notin> set (item_ids (items p))) trackIds) \<and>
           added r = length (filter (\<lambda>i. i \<notin> set (item_ids (items p))) trackIds) \<and>
           skipped r = length trackIds - added r \<and>
           (\<forall>env2. playlists (snd (addTracksToPlaylistIfMissing env2 pid trackIds w')) = playlists w' \<and>
              (\<forall>r2 w2. addTracksToPlaylistIfMissing env2 pid trackIds w' = (Inr r2, w2) \<longrightarrow>
                 r2 = \<lparr>added = 0, skipped = length trackIds\<rparr>) \<and>
              ((\<forall>n. \<not> faults env2 n) \<longrightarrow>
                 fst (addTracksToPlaylistIfMissing env2 pid trackIds w')
                   = Inr \<lparr>added = 0, skipped = length trackIds\<rparr>))"
proof -
  from add_first_call [OF run ne] obtain p p' where p: "playlists w pid = Some p"
    and w': "playlists w' = (playlists w)(pid \<mapsto> p')"
    and it: "items p' = items p @ map TrackRef (filter (\<lambda>i. i \<notin> set (item_ids (items p))) trackIds)"
    and r: "added r = length (filter (\<lambda>i. i \<notin> set (item_ids (items p))) trackIds)"
       "skipped r = length trackIds - added r"
    by blast
  have p': "playlists w' pid = Some p'" using w' by simp
  have sub: "set trackIds \<subseteq> set (item_ids (items p'))"
    by (auto simp add: it item_ids_append item_ids_TrackRef)
  have "\<forall>env2. playlists (snd (addTracksToPlaylistIfMissing env2 pid trackIds w')) = playlists w' \<and>
              (\<forall>r2 w2. addTracksToPlaylistIfMissing env2 pid trackIds w' = (Inr r2, w2) \<longrightarrow>
                 r2 = \<lparr>added = 0, skipped = length trackIds\<rparr>) \<and>
              ((\<forall>n. \<not> faults env2 n) \<longrightarrow>
                 fst (addTracksToPlaylistIfMissing env2 pid trackIds w')
                   = Inr \<lparr>added = 0, skipped = length trackIds\<rparr>)"
    using add_all_present [OF p' sub ne] by blast
  with p w' it r show ?thesis by blast
qed

theorem addTracksToPlaylistIfMissing_idempotent_witness:
  "fst (addTracksToPlaylistIfMissing env0 ''plA'' [''t2'', ''t3''] world0)
     = Inr \<lparr>added = 1, skipped = 1\<rparr>
   \<and> fst (addTracksToPlaylistIfMissing env0 ''plA'' [''t2'', ''t3'']
            (snd (addTracksToPlaylistIfMissing env0 ''plA'' [''t2'', ''t3''] world0)))
     = Inr \<lparr>added = 0, skipped = 2\<rparr>"
proof -
  have e: "fst (addTracksToPlaylistIfMissing env0 ''plA'' [''t2'', ''t3''] world0)
             = Inr \<lparr>added = 1, skipped = 1\<rparr>"
    by (simp add: addTracksToPlaylistIfMissing_def getPlaylistTrackIdsSet_def
        iteratePlaylistTracks_def io_defs env0_def world0_def paginate_def slices_step
        set_add_def catalog_addTracksToPlaylist_def toTrackUri_def)
  then have run: "addTracksToPlaylistIfMissing env0 ''plA'' [''t2'', ''t3''] world0
      = (Inr \<lparr>added = 1, skipped = 1\<rparr>,
         snd (addTracksToPlaylistIfMissing env0 ''plA'' [''t2'', ''t3''] world0))"
    by (metis prod.collapse)
  have ne: "[] \<notin> set [''t2'', ''t3'']" by simp
  have nf: "\<forall>n. \<not> faults env0 n" by (simp add: env0_def)
  from addTracksToPlaylistIfMissing_idempotent [OF run ne] nf
  have "fst (addTracksToPlaylistIfMissing env0 ''plA'' [''t2'', ''t3'']
            (snd (addTracksToPlaylistIfMissing env0 ''plA'' [''t2'', ''t3''] world0)))
     = Inr \<lparr>added = 0, skipped = length [''t2'', ''t3'']\<rparr>"
    by blast
  with e show ?thesis by simp
qed

section \<open>Properties of the profile builder\<close>

lemma fetch_pages_world:
  "fetch_playlist_pages env pid off pages w = (Inr ts, w') \<Longrightarrow>
   w' = w\<lparr>trace := trace w @ page_events pid off pages, ops := ops w + length pages\<rparr>"
proof (induction pages arbitrary: off w ts w')
  case Nil
  then show ?case by (simp add: returnM_def)
next
  case (Cons page rest)
  from Cons.prems obtain ts' w2 w3 where
    f: "\<not> faults env (ops w)"
    and w2: "w2 = w\<lparr>trace := trace w @ [PlaylistPageFetch pid off], ops := Suc (ops w)\<rparr>"
    and r: "fetch_playlist_pages env pid (off + length page) rest w2 = (Inr ts', w3)"
    and e: "w' = w3"
    by (auto simp add: emit_def fallible_def returnM_def split: if_splits dest!: bindM_InrD)
  from Cons.IH [OF r] e show ?case by (simp add: w2)
qed

lemma iterate_world:
  assumes "iteratePlaylistTracks env pid w = (Inr ts, w')" "playlists w pid = Some p"
  shows "w' = w\<lparr>trace := trace w @ page_events pid 0 (paginate 50 (items p)),
                 ops := ops w + length (paginate 50 (items p))\<rparr>"
  using assms fetch_pages_world [of env pid 0 "paginate 50 (items p)" w ts w']
  by (simp add: iteratePlaylistTracks_def)

lemma getSeveralArtists_result:
  "getSeveralArtists env ids w = (Inr as, w') \<Longrightarrow>
   as = map (artist_db env) ids \<and>
   w' = w\<lparr>trace := trace w @ [ArtistsFetch ids], ops := Suc (ops w)\<rparr>"
  by (auto simp add: getSeveralArtists_def io_defs split: if_splits)

lemma count_artists_append:
  "count_artists (xs @ ys) c =
     (case count_artists xs c of Inl e \<Rightarrow> Inl e | Inr c' \<Rightarrow> count_artists ys c')"
  by (induction xs c rule: count_artists.induct) simp_all

lemma count_batches_world:
  "count_batches env batches counts w = (Inr c, w') \<Longrightarrow>
   w' = w\<lparr>trace := trace w @ map ArtistsFetch batches, ops := ops w + length batches\<rparr> \<and>
   count_artists (map (artist_db env) (concat batches)) counts = Inr c"
proof (induction batches arbitrary: counts w c w')
  case Nil
  then show ?case by (simp add: returnM_def)
next
  case (Cons b bs)
  from Cons.prems obtain as w1 where g: "getSeveralArtists env b w = (Inr as, w1)"
    and rest: "(case count_artists as counts of
         Inl e \<Rightarrow> throwM e
       | Inr counts' \<Rightarrow> count_batches env bs counts') w1 = (Inr c, w')"
    by (auto dest!: bindM_InrD)
  from getSeveralArtists_result [OF g] have as: "as = map (artist_db env) b"
    and w1: "w1 = w\<lparr>trace := trace w @ [ArtistsFetch b], ops := Suc (ops w)\<rparr>" by auto
  from rest obtain c1 where c1: "count_artists as counts = Inr c1"
    and r: "count_batches env bs c1 w1 = (Inr c, w')"
    by (cases "count_artists as counts") (auto simp add: throwM_def)
  from Cons.IH [OF r] c1 show ?case
    by (simp add: w1 as count_artists_append)
qed

lemma getCachedProfile_eq:
  "getCachedProfile pid snap w
     = (Inr (cached_entry w pid snap), w\<lparr>trace := trace w @ [CacheRead]\<rparr>)"
  by (simp add: getCachedProfile_def cache_readFile_def io_defs cached_entry_def
      cache_contents_def split: option.splits)

lemma putCachedProfile_result:
  "putCachedProfile env entry w = (Inr u, w') \<Longrightarrow>
   w' = w\<lparr>trace := trace w @ [CacheRead, CacheWrite], ops := Suc (ops w),
          cache_file := Some (cache_put entry (cache_contents w))\<rparr>"
  by (auto simp add: putCachedProfile_def cache_readFile_def cache_writeFile_def io_defs
      cache_put_def cache_contents_def Let_def split: if_splits option.splits)

lemma findIndex_ge: "- 1 \<le> findIndex P xs"
  by (induction xs) (auto simp add: Let_def)

lemma findIndex_neg: "findIndex P xs < 0 \<longleftrightarrow> (\<forall>x \<in> set xs. \<not> P x)"
  using findIndex_ge [of P] by (induction xs) (auto simp add: Let_def)




lemma cached_entry_frame [simp]:
  "cached_entry (w\<lparr>trace := t\<rparr>) pid snap = cached_entry w pid snap"
  "cached_entry (w\<lparr>ops := n\<rparr>) pid snap = cached_entry w pid snap"
  "cached_entry (w\<lparr>ticks := k\<rparr>) pid snap = cached_entry w pid snap"
  by (simp_all add: cached_entry_def cache_contents_def)

lemma cache_contents_frame [simp]:
  "cache_contents (w\<lparr>trace := t\<rparr>) = cache_contents w"
  "cache_contents (w\<lparr>ops := n\<rparr>) = cache_contents w"
  "cache_contents (w\<lparr>ticks := k\<rparr>) = cache_contents w"
  by (simp_all add: cache_contents_def)

lemma getPlaylistSnapshot_eq:
  "playlists w pid = Some p \<Longrightarrow>
   getPlaylistSnapshot env pid w =
     (if faults env (ops w) then Inl CatalogError
      else Inr (snapshot_id p, Some (length (items p))),
      w\<lparr>trace := trace w @ [SnapshotFetch pid], ops := Suc (ops w)\<rparr>)"
  by (simp add: getPlaylistSnapshot_def io_defs)


lemma build_miss:
  assumes p: "playlists w pid = Some p"
    and miss: "cached_entry w pid (snapshot_id p) = None"
    and run: "buildPlaylistGenreProfile env pid w = (Inr prof, w')"
  shows "count_artists (map (artist_db env) (playlist_artist_ids env p)) Map.empty = Inr prof"
    and "w' = w\<lparr>trace := trace w @ [SnapshotFetch pid, CacheRead]
                    @ page_events pid 0 (paginate 50 (items p))
                    @ map ArtistsFetch (slices 50 (playlist_artist_ids env p))
                    @ [CacheRead, CacheWrite],
                 ops := ops w + length (paginate 50 (items p))
                          + length (slices 50 (playlist_artist_ids env p)) + 2,
                 ticks := Suc (ticks w),
                 cache_file := Some (cache_put
                    \<lparr>playlistId = pid, snapshotId = snapshot_id p,
                     tracksTotal = length (items p),
                     updatedAt = toISOString env (now_ms env (ticks w)),
                     genres = prof\<rparr> (cache_contents w))\<rparr>"
proof -
  let ?w1 = "w\<lparr>trace := trace w @ [SnapshotFetch pid], ops := Suc (ops w)\<rparr>"
  let ?w2 = "?w1\<lparr>trace := trace ?w1 @ [CacheRead]\<rparr>"
  let ?ids = "playlist_artist_ids env p"
  from run p have nf: "\<not> faults env (ops w)"
    by (auto simp add: buildPlaylistGenreProfile_def bindM_def getPlaylistSnapshot_eq
        split: if_splits)
  with run p miss have body:
    "bindM (iteratePlaylistTracks env pid) (\<lambda>tracks.
             let artistIds = collect_artist_ids tracks [];
                 ids = filter (\<lambda>a. a \<noteq> []) artistIds
             in bindM (count_batches env (slices 50 ids) Map.empty) (\<lambda>counts.
                bindM (new_Date env) (\<lambda>now.
                bindM (putCachedProfile env
                         \<lparr>playlistId = pid, snapshotId = snapshot_id p,
                          tracksTotal = (case Some (length (items p)) of None \<Rightarrow> length ids | Some t \<Rightarrow> t),
                          updatedAt = toISOString env now,
                          genres = counts\<rparr>) (\<lambda>_.
                returnM counts)))) ?w2 = (Inr prof, w')"
    by (simp add: buildPlaylistGenreProfile_def bindM_def getPlaylistSnapshot_eq
        getCachedProfile_eq)
  then obtain ts w3 where it: "iteratePlaylistTracks env pid ?w2 = (Inr ts, w3)"
    and rest: "bindM (count_batches env (slices 50 (filter (\<lambda>a. a \<noteq> []) (collect_artist_ids ts []))) Map.empty) (\<lambda>counts.
                bindM (new_Date env) (\<lambda>now.
                bindM (putCachedProfile env
                         \<lparr>playlistId = pid, snapshotId = snapshot_id p,
                          tracksTotal = length (items p),
                          updatedAt = toISOString env now,
                          genres = counts\<rparr>) (\<lambda>_.
                returnM counts))) w3 = (Inr prof, w')"
    by (auto simp add: Let_def dest: bindM_InrD)
  have p2: "playlists ?w2 pid = Some p" using p by simp
  from iterate_result [OF it] p2 have ts: "ts = page_tracks env (items p)" by auto
  have ids: "filter (\<lambda>a. a \<noteq> []) (collect_artist_ids ts []) = ?ids"
    by (simp add: ts playlist_artist_ids_def)
  from iterate_world [OF it p2]
  have w3: "w3 = ?w2\<lparr>trace := trace ?w2 @ page_events pid 0 (paginate 50 (items p)),
                 ops := ops ?w2 + length (paginate 50 (items p))\<rparr>" .
  from rest obtain counts w4 where
    cb: "count_batches env (slices 50 ?ids) Map.empty w3 = (Inr counts, w4)"
    and rest2: "bindM (new_Date env) (\<lambda>now.
                bindM (putCachedProfile env
                         \<lparr>playlistId = pid, snapshotId = snapshot_id p,
                          tracksTotal = length (items p),
                          updatedAt = toISOString env now,
                          genres = counts\<rparr>) (\<lambda>_.
                returnM counts)) w4 = (Inr prof, w')"
    unfolding ids by (blast dest: bindM_InrD)
  from count_batches_world [OF cb]
  have w4: "w4 = w3\<lparr>trace := trace w3 @ map ArtistsFetch (slices 50 ?ids),
                     ops := ops w3 + length (slices 50 ?ids)\<rparr>"
    and ca: "count_artists (map (artist_db env) ?ids) Map.empty = Inr counts"
    by (simp_all add: concat_slices)
  let ?w5 = "w4\<lparr>ticks := Suc (ticks w4)\<rparr>"
  from rest2 obtain u where
    put: "putCachedProfile env
             \<lparr>playlistId = pid, snapshotId = snapshot_id p,
              tracksTotal = length (items p),
              updatedAt = toISOString env (now_ms env (ticks w4)),
              genres = counts\<rparr> ?w5 = (Inr u, w')"
    and prof: "prof = counts"
    by (auto simp add: new_Date_def returnM_def dest!: bindM_InrD)
  from ca prof show "count_artists (map (artist_db env) ?ids) Map.empty = Inr prof" by simp
  from putCachedProfile_result [OF put]
  show "w' = w\<lparr>trace := trace w @ [SnapshotFetch pid, CacheRead]
                    @ page_events pid 0 (paginate 50 (items p))
                    @ map ArtistsFetch (slices 50 ?ids)
                    @ [CacheRead, CacheWrite],
                 ops := ops w + length (paginate 50 (items p))
                          + length (slices 50 ?ids) + 2,
                 ticks := Suc (ticks w),
                 cache_file := Some (cache_put
                    \<lparr>playlistId = pid, snapshotId = snapshot_id p,
                     tracksTotal = length (items p),
                     updatedAt = toISOString env (now_ms env (ticks w)),
                     genres = prof\<rparr> (cache_contents w))\<rparr>"
    by (simp add: w4 w3 prof)
qed





lemma weight_count_genres:
  "weight (count_genres gs counts) g = weight counts g + int (count_list gs g)"
  by (induction gs arbitrary: counts) (simp_all add: weight_def)

lemma count_artists_weight:
  "count_artists (map (artist_db env) ids) counts = Inr c \<Longrightarrow>
   weight c g = weight counts g + (\<Sum>a\<leftarrow>ids. int (count_list (artist_tags env a) g))"
proof (induction ids arbitrary: counts)
  case Nil
  then show ?case by simp
next
  case (Cons a ids)
  show ?case
  proof (cases "artist_db env a")
    case None
    with Cons.prems show ?thesis by simp
  next
    case (Some art)
    with Cons.prems have
      "count_artists (map (artist_db env) ids)
         (count_genres (case artist_genres art of None \<Rightarrow> [] | Some gs \<Rightarrow> gs) counts) = Inr c"
      by simp
    from Cons.IH [OF this] Some show ?thesis
      by (simp add: weight_count_genres artist_tags_def)
  qed
qed

lemma count_list_distinct:
  "distinct xs \<Longrightarrow> count_list xs x = (if x \<in> set xs then 1 else 0)"
  by (induction xs) auto

lemma sum_indicator_card:
  "distinct ids \<Longrightarrow>
   (\<Sum>a\<leftarrow>ids. int (if P a then 1 else 0)) = int (card {a \<in> set ids. P a})"
proof (induction ids)
  case Nil
  then show ?case by simp
next
  case (Cons a ids)
  have fin: "finite {x \<in> set ids. P x}" by simp
  have split: "{x \<in> set (a # ids). P x}
                 = (if P a then insert a {x \<in> set ids. P x} else {x \<in> set ids. P x})"
    by auto
  have notin: "a \<notin> {x \<in> set ids. P x}" using Cons.prems by simp
  from Cons show ?case
    unfolding split using fin notin by simp
qed

lemma distinct_set_add: "distinct s \<Longrightarrow> distinct (set_add s x)"
  by (simp add: set_add_def)

lemma add_all_props:
  "distinct s \<Longrightarrow> distinct (add_all xs s) \<and> set (add_all xs s) = set s \<union> set xs"
  by (induction xs arbitrary: s) (auto simp add: distinct_set_add)

lemma collect_artist_ids_props:
  "distinct s \<Longrightarrow>
   distinct (collect_artist_ids ts s) \<and>
   set (collect_artist_ids ts s) = set s \<union> (\<Union>t \<in> set ts. set (artist_ids t))"
proof (induction ts arbitrary: s)
  case Nil
  then show ?case by simp
next
  case (Cons t ts)
  from add_all_props [OF Cons.prems, of "artist_ids t"]
  have d: "distinct (add_all (artist_ids t) s)"
    and e: "set (add_all (artist_ids t) s) = set s \<union> set (artist_ids t)" by simp_all
  from Cons.IH [OF d] e show ?case by auto
qed

lemma page_tracks_artists:
  "(\<Union>t \<in> set (page_tracks env its). set (artist_ids t))
     = (\<Union>i \<in> set (item_ids its). set (track_artists env i))"
  by (induction env its rule: page_tracks.induct) (simp_all add: item_ids_def)

lemma playlist_artist_ids_props:
  "distinct (playlist_artist_ids env p)"
  "set (playlist_artist_ids env p)
     = {a. a \<noteq> [] \<and> (\<exists>i \<in> set (item_ids (items p)). a \<in> set (track_artists env i))}"
proof -
  have d: "distinct ([] :: string list)" by simp
  from collect_artist_ids_props [OF d, of "page_tracks env (items p)"]
  show "distinct (playlist_artist_ids env p)"
    by (simp add: playlist_artist_ids_def)
  from collect_artist_ids_props [OF d, of "page_tracks env (items p)"]
  show "set (playlist_artist_ids env p)
     = {a. a \<noteq> [] \<and> (\<exists>i \<in> set (item_ids (items p)). a \<in> set (track_artists env i))}"
    by (auto simp add: playlist_artist_ids_def page_tracks_artists)
qed

text \<open>
  Claim C1. On the cache-miss path, the profile that \<open>buildPlaylistGenreProfile\<close> returns
  gives each genre \<open>g\<close> the weight: the sum, over the distinct artists named on the
  playlist's tracks (by a non-empty identifier), of the occurrences of \<open>g\<close> in the
  artist's tag list. The artists are collected in a set, so an artist on many tracks is
  one artist, and an artist without tags adds nothing. When the tag lists of the catalog
  repeat no tag, the weight of \<open>g\<close> is therefore the number of distinct artists on the
  playlist's tracks that carry \<open>g\<close>.
\<close>

theorem buildPlaylistGenreProfile_counts_distinct_artists:
  assumes p: "playlists w pid = Some p"
    and miss: "cached_entry w pid (snapshot_id p) = None"
    and run: "buildPlaylistGenreProfile env pid w = (Inr prof, w')"
  shows "weight prof g
           = (\<Sum>a\<leftarrow>playlist_artist_ids env p. int (count_list (artist_tags env a) g))
     \<and> distinct (playlist_artist_ids env p)
     \<and> set (playlist_artist_ids env p)
         = {a. a \<noteq> [] \<and> (\<exists>i \<in> set (item_ids (items p)). a \<in> set (track_artists env i))}
     \<and> ((\<forall>a. distinct (artist_tags env a)) \<longrightarrow>
          weight prof g
            = int (card {a. a \<noteq> [] \<and>
                            (\<exists>i \<in> set (item_ids (items p)). a \<in> set (track_artists env i)) \<and>
                            g \<in> set (artist_tags env a)}))"
proof -
  let ?ids = "playlist_artist_ids env p"
  from build_miss(1) [OF p miss run]
  have "count_artists (map (artist_db env) ?ids) Map.empty = Inr prof" .
  from count_artists_weight [OF this, of g]
  have sum: "weight prof g = (\<Sum>a\<leftarrow>?ids. int (count_list (artist_tags env a) g))"
    by (simp add: weight_def)
  have card: "weight prof g
            = int (card {a. a \<noteq> [] \<and>
                            (\<exists>i \<in> set (item_ids (items p)). a \<in> set (track_artists env i)) \<and>
                            g \<in> set (artist_tags env a)})"
    if dis: "\<forall>a. distinct (artist_tags env a)"
  proof -
    have "(\<Sum>a\<leftarrow>?ids. int (count_list (artist_tags env a) g))
            = (\<Sum>a\<leftarrow>?ids. int (if g \<in> set (artist_tags env a) then 1 else 0))"
      using dis by (simp add: count_list_distinct)
    also have "\<dots> = int (card {a \<in> set ?ids. g \<in> set (artist_tags env a)})"
      by (rule sum_indicator_card) (rule playlist_artist_ids_props(1))
    also have "{a \<in> set ?ids. g \<in> set (artist_tags env a)}
                 = {a. a \<noteq> [] \<and>
                       (\<exists>i \<in> set (item_ids (items p)). a \<in> set (track_artists env i)) \<and>
                       g \<in> set (artist_tags env a)}"
      unfolding playlist_artist_ids_props(2) by blast
    finally show ?thesis using sum by simp
  qed
  from sum card playlist_artist_ids_props [of env p] show ?thesis by blast
qed

theorem buildPlaylistGenreProfile_counts_distinct_artists_witness:
  "cached_entry world0 ''plA'' ''s1'' = None
   \<and> distinct (artist_tags env0 ''ar2'')
   \<and> item_ids [TrackRef ''t1'', Episode, TrackRef ''t2''] = [''t1'', ''t2'']
   \<and> track_artists env0 ''t1'' = [''ar1'', ''ar2'']
   \<and> track_artists env0 ''t2'' = [''ar1'']
   \<and> weight (projr (fst (buildPlaylistGenreProfile env0 ''plA'' world0))) ''rock'' = 2
   \<and> card {a. a \<noteq> [] \<and>
               (\<exists>i \<in> set (item_ids [TrackRef ''t1'', Episode, TrackRef ''t2'']).
                   a \<in> set (track_artists env0 i)) \<and>
               ''rock'' \<in> set (artist_tags env0 a)} = 2"
proof -
  let ?r = "buildPlaylistGenreProfile env0 ''plA'' world0"
  let ?p = "\<lparr>snapshot_id = ''s1'', items = [TrackRef ''t1'', Episode, TrackRef ''t2'']\<rparr>"
  have p: "playlists world0 ''plA'' = Some ?p"
    by (simp add: world0_def)
  have miss: "cached_entry world0 ''plA'' (snapshot_id ?p) = None"
    by (simp add: cached_entry_def cache_contents_def world0_def)
  have ev: "\<not> isl (fst ?r) \<and> weight (projr (fst ?r)) ''rock'' = 2"
    by (simp add: buildPlaylistGenreProfile_def getPlaylistSnapshot_def getCachedProfile_def
        cache_readFile_def cache_writeFile_def putCachedProfile_def
        iteratePlaylistTracks_def getSeveralArtists_def io_defs env0_def world0_def
        paginate_def slices_step set_add_def Let_def weight_def)
  then have run: "?r = (Inr (projr (fst ?r)), snd ?r)"
    by (metis prod.collapse sum.collapse(2))
  have dis: "\<forall>a. distinct (artist_tags env0 a)"
    by (simp add: artist_tags_def env0_def)
  from buildPlaylistGenreProfile_counts_distinct_artists [OF p miss run, of "''rock''"] dis
  have "weight (projr (fst ?r)) ''rock''
          = int (card {a. a \<noteq> [] \<and>
               (\<exists>i \<in> set (item_ids (items ?p)). a \<in> set (track_artists env0 i)) \<and>
               ''rock'' \<in> set (artist_tags env0 a)})"
    by blast
  with ev have c: "card {a. a \<noteq> [] \<and>
               (\<exists>i \<in> set (item_ids [TrackRef ''t1'', Episode, TrackRef ''t2'']).
                   a \<in> set (track_artists env0 i)) \<and>
               ''rock'' \<in> set (artist_tags env0 a)} = 2"
    by simp
  have i: "item_ids [TrackRef ''t1'', Episode, TrackRef ''t2''] = [''t1'', ''t2'']"
    by (simp add: item_ids_def)
  have t: "track_artists env0 ''t1'' = [''ar1'', ''ar2'']" "track_artists env0 ''t2'' = [''ar1'']"
    by (simp_all add: env0_def)
  from miss dis ev c i t show ?thesis by simp
qed

section \<open>Properties of a run\<close>

lemma calmI:
  "(\<And>w. state_file (snd (m w)) = state_file w \<and>
          (\<exists>evs. trace (snd (m w)) = trace w @ evs \<and> list_all P evs)) \<Longrightarrow> calm P m"
  by (simp add: calm_def)

lemma calmD:
  "calm P m \<Longrightarrow> m w = (r, w') \<Longrightarrow>
   state_file w' = state_file w \<and> (\<exists>evs. trace w' = trace w @ evs \<and> list_all P evs)"
  unfolding calm_def by (metis snd_conv)

lemma calm_returnM: "calm P (returnM x)"
  by (simp add: calm_def returnM_def)

lemma calm_throwM: "calm P (throwM e)"
  by (simp add: calm_def throwM_def)

lemma calm_emit: "P ev \<Longrightarrow> calm P (emit ev)"
  by (simp add: calm_def emit_def)

lemma calm_fallible: "calm P (fallible env err)"
  by (simp add: calm_def fallible_def)

lemma calm_new_Date: "calm P (new_Date env)"
  by (simp add: calm_def new_Date_def)

lemma calm_bindM:
  assumes m: "calm P m" and f: "\<And>x. calm P (f x)"
  shows "calm P (bindM m f)"
proof (rule calmI)
  fix w
  obtain r w1 where mw: "m w = (r, w1)" by (cases "m w")
  from calmD [OF m mw] obtain evs where s1: "state_file w1 = state_file w"
    and t1: "trace w1 = trace w @ evs" and p1: "list_all P evs" by blast
  show "state_file (snd (bindM m f w)) = state_file w \<and>
          (\<exists>evs. trace (snd (bindM m f w)) = trace w @ evs \<and> list_all P evs)"
  proof (cases r)
    case (Inl e)
    then have "bindM m f w = (Inl e, w1)" by (simp add: bindM_def mw)
    with s1 t1 p1 show ?thesis by auto
  next
    case (Inr x)
    obtain r2 w2 where fw: "f x w1 = (r2, w2)" by (cases "f x w1")
    from calmD [OF f fw] obtain evs2 where s2: "state_file w2 = state_file w1"
      and t2: "trace w2 = trace w1 @ evs2" and p2: "list_all P evs2" by blast
    have "bindM m f w = (r2, w2)" by (simp add: bindM_def mw Inr fw)
    moreover have "trace w2 = trace w @ (evs @ evs2)" using t1 t2 by simp
    moreover have "list_all P (evs @ evs2)" using p1 p2 by simp
    ultimately show ?thesis using s1 s2 by (metis snd_conv)
  qed
qed

lemma calm_same:
  "(\<And>w. state_file (snd (m w)) = state_file w \<and> trace (snd (m w)) = trace w) \<Longrightarrow> calm P m"
  by (rule calmI) simp

lemma calm_getPlaylistSnapshot:
  "(\<And>ev. service_event ev \<Longrightarrow> P ev) \<Longrightarrow> calm P (getPlaylistSnapshot env pid)"
  unfolding getPlaylistSnapshot_def
  by (intro calm_bindM calm_emit calm_fallible calm_same) (auto split: option.splits)

lemma calm_fetch_pages:
  "(\<And>ev. service_event ev \<Longrightarrow> P ev) \<Longrightarrow> calm P (fetch_playlist_pages env pid off pages)"
  by (induction pages arbitrary: off)
     (auto intro!: calm_bindM calm_emit calm_fallible calm_returnM)

lemma calm_iterate:
  assumes "\<And>ev. service_event ev \<Longrightarrow> P ev"
  shows "calm P (iteratePlaylistTracks env pid)"
proof (rule calmI)
  fix w
  have a: "calm P (bindM (emit (PlaylistPageFetch pid 0)) (\<lambda>_.
                    bindM (fallible env CatalogError) (\<lambda>_. throwM CatalogError) :: Track list io))"
    using assms by (intro calm_bindM calm_emit calm_fallible calm_throwM) simp
  show "state_file (snd (iteratePlaylistTracks env pid w)) = state_file w \<and>
          (\<exists>evs. trace (snd (iteratePlaylistTracks env pid w)) = trace w @ evs \<and> list_all P evs)"
  proof (cases "playlists w pid")
    case None
    then show ?thesis using a by (simp add: iteratePlaylistTracks_def calm_def)
  next
    case (Some p)
    have "calm P (fetch_playlist_pages env pid 0 (paginate 50 (items p)))"
      using assms by (rule calm_fetch_pages)
    with Some show ?thesis
      by (simp add: iteratePlaylistTracks_def calm_def)
  qed
qed

lemma calm_getSeveralArtists:
  "(\<And>ev. service_event ev \<Longrightarrow> P ev) \<Longrightarrow> calm P (getSeveralArtists env ids)"
  unfolding getSeveralArtists_def
  by (intro calm_bindM calm_emit calm_fallible calm_returnM) simp

lemma calm_catalog_add:
  "(\<And>ev. service_event ev \<Longrightarrow> P ev) \<Longrightarrow> calm P (catalog_addTracksToPlaylist env pid uris)"
  unfolding catalog_addTracksToPlaylist_def
  by (intro calm_bindM calm_emit calm_fallible calm_same) (auto split: option.splits)

lemma calm_getIds:
  "(\<And>ev. service_event ev \<Longrightarrow> P ev) \<Longrightarrow> calm P (getPlaylistTrackIdsSet env pid)"
  unfolding getPlaylistTrackIdsSet_def
  by (intro calm_bindM calm_iterate calm_returnM)

lemma calm_add_batches:
  "(\<And>ev. service_event ev \<Longrightarrow> P ev) \<Longrightarrow> calm P (add_batches env pid batches)"
  by (induction batches) (auto intro!: calm_bindM calm_catalog_add calm_returnM)

lemma calm_addIfMissing:
  "(\<And>ev. service_event ev \<Longrightarrow> P ev) \<Longrightarrow> calm P (addTracksToPlaylistIfMissing env pid ids)"
  unfolding addTracksToPlaylistIfMissing_def Let_def
  by (intro calm_bindM calm_getIds)
     (auto intro!: calm_bindM calm_add_batches calm_returnM)

lemma calm_cache_readFile:
  "(\<And>ev. service_event ev \<Longrightarrow> P ev) \<Longrightarrow> calm P cache_readFile"
  unfolding cache_readFile_def
  by (intro calm_bindM calm_emit calm_same) (auto split: option.splits)

lemma calm_cache_writeFile:
  "(\<And>ev. service_event ev \<Longrightarrow> P ev) \<Longrightarrow> calm P (cache_writeFile env data)"
  unfolding cache_writeFile_def
  by (intro calm_bindM calm_emit calm_fallible calm_same) auto

lemma calm_getCachedProfile:
  "(\<And>ev. service_event ev \<Longrightarrow> P ev) \<Longrightarrow> calm P (getCachedProfile pid snap)"
  unfolding getCachedProfile_def
  by (intro calm_bindM calm_cache_readFile calm_returnM)

lemma calm_putCachedProfile:
  "(\<And>ev. service_event ev \<Longrightarrow> P ev) \<Longrightarrow> calm P (putCachedProfile env entry)"
  unfolding putCachedProfile_def Let_def
  by (intro calm_bindM calm_cache_readFile calm_cache_writeFile)

lemma calm_count_batches:
  "(\<And>ev. service_event ev \<Longrightarrow> P ev) \<Longrightarrow> calm P (count_batches env batches counts)"
  by (induction batches arbitrary: counts)
     (auto intro!: calm_bindM calm_getSeveralArtists calm_returnM calm_throwM split: sum.splits)

lemma calm_build:
  assumes "\<And>ev. service_event ev \<Longrightarrow> P ev"
  shows "calm P (buildPlaylistGenreProfile env pid)"
  unfolding buildPlaylistGenreProfile_def Let_def
  by (intro calm_bindM calm_getPlaylistSnapshot assms)
     (auto intro!: calm_bindM calm_getCachedProfile calm_iterate calm_count_batches
        calm_new_Date calm_putCachedProfile calm_returnM assms split: option.splits)

lemma calm_shouldRebuild: "calm P (shouldRebuildProfile env t)"
  by (cases t) (auto intro!: calm_bindM calm_new_Date calm_returnM)

lemma calm_rebuild_profiles:
  assumes "\<And>ev. service_event ev \<Longrightarrow> P ev"
  shows "calm P (rebuild_profiles env lrt pids acc)"
  by (induction pids arbitrary: acc)
     (auto intro!: calm_bindM calm_shouldRebuild calm_build calm_new_Date calm_returnM assms
        simp add: Let_def)

lemma calm_genre_batches:
  "(\<And>ev. service_event ev \<Longrightarrow> P ev) \<Longrightarrow> calm P (genre_batches env batches gs)"
  by (induction batches arbitrary: gs)
     (auto intro!: calm_bindM calm_getSeveralArtists calm_returnM calm_throwM split: sum.splits)

lemma calm_route_track:
  "(\<And>ev. service_event ev \<Longrightarrow> P ev) \<Longrightarrow> calm P (route_track env profiles item)"
  unfolding route_track_def Let_def
  by (intro calm_bindM calm_genre_batches calm_returnM)

lemma calm_process_items:
  assumes "\<And>ev. service_event ev \<Longrightarrow> P ev"
    and "\<And>item best. \<not> (truthy wm \<and> js_le (added_at item) wm) \<Longrightarrow> P (Routed item best)"
  shows "calm P (process_items env wm profiles its acc)"
  by (induction its arbitrary: acc)
     (auto intro!: calm_bindM calm_route_track calm_emit calm_returnM assms simp add: Let_def)

lemma calm_stream_pages:
  assumes "\<And>ev. service_event ev \<Longrightarrow> P ev"
    and "\<And>item best. \<not> (truthy wm \<and> js_le (added_at item) wm) \<Longrightarrow> P (Routed item best)"
  shows "calm P (stream_pages env wm profiles off pages acc)"
  by (induction pages arbitrary: off acc)
     (auto intro!: calm_bindM calm_emit calm_fallible calm_process_items calm_returnM assms)

lemma calm_write_playlists:
  assumes "\<And>ev. service_event ev \<Longrightarrow> P ev"
  shows "calm P (write_playlists env byPl)"
  by (induction env byPl rule: write_playlists.induct)
     (auto intro!: calm_bindM calm_addIfMissing calm_returnM assms)

lemma writeState_eq:
  "writeState env s w =
     (if faults env (ops w)
      then (Inl StateWriteError, w\<lparr>trace := trace w @ [StateWrite s], ops := Suc (ops w)\<rparr>)
      else (Inr (), w\<lparr>trace := trace w @ [StateWrite s], ops := Suc (ops w),
                      state_file := Holds s\<rparr>))"
  by (simp add: writeState_def io_defs)

lemma main_incremental:
  assumes sf: "state_file w = Holds s0"
    and tr: "truthy (lastProcessedAddedAt s0)"
    and tg: "targetPlaylists env \<noteq> []"
    and P1: "\<And>ev. service_event ev \<Longrightarrow> P ev"
    and P2: "\<And>item best. \<not> js_le (added_at item) (lastProcessedAddedAt s0) \<Longrightarrow> P (Routed item best)"
  shows "\<exists>w3 evs. state_file w3 = state_file w \<and> trace w3 = trace w @ StateRead # evs \<and>
           list_all P evs \<and>
           ((\<exists>e. main env w = (Inl e, w3)) \<or>
            (\<exists>us. main env w = writeState env us w3 \<and>
                  lastProcessedAddedAt s0 \<le> lastProcessedAddedAt us))"
proof -
  let ?state = "case lastProfileRebuildTime s0 of
                      None \<Rightarrow> s0\<lparr>lastProfileRebuildTime := Some Map.empty\<rparr>
                    | Some _ \<Rightarrow> s0"
  let ?wm = "lastProcessedAddedAt s0"
  have wm: "lastProcessedAddedAt ?state = ?wm" by (simp split: option.splits)
  let ?w0 = "w\<lparr>trace := trace w @ [StateRead]\<rparr>"
  let ?A = "rebuild_profiles env (lastProfileRebuildTime ?state) (targetPlaylists env)
              ([], case lastProfileRebuildTime ?state of None \<Rightarrow> Map.empty | Some m \<Rightarrow> m)"
  let ?B = "\<lambda>built. stream_pages env ?wm (fst built) 0
                     (paginate 50 (saved_tracks env)) ([], ?wm)"
  let ?C = "\<lambda>streamed. write_playlists env (fst streamed)"
  let ?us = "\<lambda>built streamed.
      (if truthy (snd streamed) \<and>
                        (case snd streamed of
                           None \<Rightarrow> False
                         | Some n \<Rightarrow> js_gt n ?wm)
                     then ?state\<lparr>lastProcessedAddedAt := snd streamed\<rparr> else ?state)
         \<lparr>lastProfileRebuildTime := Some (snd built)\<rparr>"
  have main_eq: "main env w =
     bindM ?A (\<lambda>built. bindM (?B built) (\<lambda>streamed. bindM (?C streamed) (\<lambda>_.
        writeState env (?us built streamed)))) ?w0"
  proof -
    have rs: "readState w = (Inr s0, ?w0)" by (simp add: readState_eq sf)
    show ?thesis using tr tg
      by (cases "lastProfileRebuildTime s0")
         (simp_all add: main_def bindM_def rs Let_def
            cong: prod.case_cong sum.case_cong option.case_cong if_cong)
  qed
  have cA: "calm P ?A" by (rule calm_rebuild_profiles) (rule P1)
  have cB: "calm P (?B built)" for built
    using tr by (intro calm_stream_pages) (auto intro: P1 P2)
  have cC: "calm P (?C streamed)" for streamed
    by (rule calm_write_playlists) (rule P1)
  have le: "?wm \<le> lastProcessedAddedAt (?us built streamed)" for built streamed
    using wm tr by (cases "snd streamed"; cases ?wm) (auto split: option.splits)
  obtain r1 w1 where A: "?A ?w0 = (r1, w1)" by (cases "?A ?w0")
  from calmD [OF cA A] obtain e1 where s1: "state_file w1 = state_file w"
    and t1: "trace w1 = trace w @ StateRead # e1" and p1: "list_all P e1" by auto
  show ?thesis
  proof (cases r1)
    case (Inl e)
    then have "main env w = (Inl e, w1)" by (simp add: main_eq bindM_def A)
    with s1 t1 p1 show ?thesis by blast
  next
    case (Inr built)
    obtain r2 w2 where B: "?B built w1 = (r2, w2)" by (cases "?B built w1")
    from calmD [OF cB B] obtain e2 where s2: "state_file w2 = state_file w1"
      and t2: "trace w2 = trace w1 @ e2" and p2: "list_all P e2" by auto
    have t2': "trace w2 = trace w @ StateRead # (e1 @ e2)" using t1 t2 by simp
    have p2': "list_all P (e1 @ e2)" using p1 p2 by simp
    show ?thesis
    proof (cases r2)
      case (Inl e)
      then have "main env w = (Inl e, w2)" by (simp add: main_eq bindM_def A Inr B)
      with s1 s2 t2' p2' show ?thesis by (metis (no_types, lifting))
    next
      case r2: (Inr streamed)
      obtain r3 w3 where C: "?C streamed w2 = (r3, w3)" by (cases "?C streamed w2")
      from calmD [OF cC C] obtain e3 where s3: "state_file w3 = state_file w2"
        and t3: "trace w3 = trace w2 @ e3" and p3: "list_all P e3" by auto
      have t3': "trace w3 = trace w @ StateRead # (e1 @ e2 @ e3)" using t2' t3 by simp
      have p3': "list_all P (e1 @ e2 @ e3)" using p2' p3 by simp
      have s3': "state_file w3 = state_file w" using s1 s2 s3 by simp
      show ?thesis
      proof (cases r3)
        case (Inl e)
        then have "main env w = (Inl e, w3)" by (simp add: main_eq bindM_def A Inr r2 B C)
        with s3' t3' p3' show ?thesis by blast
      next
        case r3: (Inr u)
        have "main env w = writeState env (?us built streamed) w3"
          by (simp add: main_eq bindM_def A Inr r2 r3 B C)
        with le [of built streamed] s3' t3' p3' show ?thesis by blast
      qed
    qed
  qed
qed


lemma main_cases:
  obtains (first) "\<not> truthy (persisted_watermark w)"
  | (config) "truthy (persisted_watermark w)" "targetPlaylists (env :: Env) = []"
  | (incr) s0 where "state_file w = Holds s0" "truthy (lastProcessedAddedAt s0)"
      "targetPlaylists env \<noteq> []"
proof (cases "truthy (persisted_watermark w)")
  case False
  then show ?thesis by (rule first)
next
  case True
  then obtain s0 where "state_file w = Holds s0" "truthy (lastProcessedAddedAt s0)"
    by (cases "state_file w") (auto simp add: persisted_watermark_def)
  with True config incr show ?thesis by (cases "targetPlaylists env = []") auto
qed

lemmas eval_defs =
  main_def readState_eq writeState_eq buildPlaylistGenreProfile_def getPlaylistSnapshot_def
  getCachedProfile_def cache_readFile_def cache_writeFile_def putCachedProfile_def
  iteratePlaylistTracks_def getSeveralArtists_def getPlaylistTrackIdsSet_def
  addTracksToPlaylistIfMissing_def catalog_addTracksToPlaylist_def toTrackUri_def
  route_track_def pickBestPlaylist_def scoreTrackAgainstProfile_def
  io_defs paginate_def slices_step set_add_def Let_def

text \<open>
  Claim C6. A run that ends with an error leaves the state file exactly as it was when
  the run started, wherever the error arose: in rebuilding the profiles, in streaming
  the liked tracks, in routing them or in writing to the playlists. On the incremental
  path \<open>writeState\<close> is the last step, after all of these: unless the error is that of
  the state write itself, the run's trace has no state write at all. (A state write that
  fails is taken to leave the file as it was.)
\<close>

theorem main_failure_leaves_state:
  assumes "main env w = (Inl e, w')"
  shows "state_file w' = state_file w \<and>
         (e \<noteq> StateWriteError \<longrightarrow>
            (\<exists>evs. trace w' = trace w @ evs \<and> (\<forall>s. StateWrite s \<notin> set evs)))"
proof (cases rule: main_cases [where w = w and env = env])
  case first
  from main_first_run [OF first, of env] assms show ?thesis
    by (auto split: if_splits)
next
  case config
  from main_no_targets [OF config(2) config(1)] assms
  have "w' = w\<lparr>trace := trace w @ [StateRead]\<rparr>" by simp
  then show ?thesis by simp
next
  case (incr s0)
  let ?P = "\<lambda>ev. \<forall>s. ev \<noteq> StateWrite s"
  have P1: "\<And>ev. service_event ev \<Longrightarrow> ?P ev" by auto
  from main_incremental [where P = ?P, OF incr P1]
  obtain w3 evs where s3: "state_file w3 = state_file w"
    and t3: "trace w3 = trace w @ StateRead # evs" and p3: "list_all ?P evs"
    and alt: "(\<exists>e. main env w = (Inl e, w3)) \<or>
            (\<exists>us. main env w = writeState env us w3 \<and>
                  lastProcessedAddedAt s0 \<le> lastProcessedAddedAt us)"
    by auto
  have nsw: "\<forall>s. StateWrite s \<notin> set (StateRead # evs)"
    using p3 by (auto simp add: list_all_iff)
  from alt show ?thesis
  proof
    assume "\<exists>e. main env w = (Inl e, w3)"
    with assms have "w' = w3" by auto
    with s3 t3 nsw show ?thesis by blast
  next
    assume "\<exists>us. main env w = writeState env us w3 \<and>
                  lastProcessedAddedAt s0 \<le> lastProcessedAddedAt us"
    then obtain us where "main env w = writeState env us w3" by blast
    with assms have "e = StateWriteError"
      and "w' = w3\<lparr>trace := trace w3 @ [StateWrite us], ops := Suc (ops w3)\<rparr>"
      by (auto simp add: writeState_eq split: if_splits)
    with s3 show ?thesis by simp
  qed
qed

theorem main_failure_leaves_state_witness:
  "fst (main (env0\<lparr>faults := (\<lambda>n. n = 2)\<rparr>) world1) = Inl CatalogError
   \<and> state_file (snd (main (env0\<lparr>faults := (\<lambda>n. n = 2)\<rparr>) world1)) = Holds state1"
proof -
  let ?r = "main (env0\<lparr>faults := (\<lambda>n. n = 2)\<rparr>) world1"
  have e: "fst ?r = Inl CatalogError"
    by (simp add: eval_defs env0_def world1_def world0_def state1_def)
  then have run: "?r = (Inl CatalogError, snd ?r)" by (metis prod.collapse)
  from main_failure_leaves_state [OF run]
  have "state_file (snd ?r) = state_file world1" by simp
  with e show ?thesis by (simp add: world1_def)
qed

lemma main_success:
  assumes "main env w = (Inr u, w')"
  shows "persisted_watermark w \<le> persisted_watermark w'"
    and "routed_after_watermark (env, w)"
proof -
  have both: "persisted_watermark w \<le> persisted_watermark w' \<and> routed_after_watermark (env, w)"
  proof (cases rule: main_cases [where w = w and env = env])
    case first
    from main_first_run [OF first, of env] assms
    have w': "w' = w\<lparr>trace := trace w @ [StateRead, StateWrite (first_run_state env w)],
        ticks := Suc (ticks w), ops := Suc (ops w),
        state_file := Holds (first_run_state env w)\<rparr>"
      by (auto split: if_splits)
    have "persisted_watermark w \<le> persisted_watermark w'"
      using first
      by (cases "persisted_watermark w")
         (auto simp add: w' persisted_watermark_def first_run_state_def)
    moreover have "routed_after_watermark (env, w)"
      by (simp add: routed_after_watermark_def new_events_def assms w')
    ultimately show ?thesis by simp
  next
    case config
    from main_no_targets [OF config(2) config(1)] assms show ?thesis by simp
  next
    case (incr s0)
    let ?wm = "lastProcessedAddedAt s0"
    let ?P = "\<lambda>ev. case ev of Routed item best \<Rightarrow> ?wm < Some (added_at item) | _ \<Rightarrow> True"
    have P1: "\<And>ev. service_event ev \<Longrightarrow> ?P ev"
      by (auto split: Event.splits)
    have P2: "\<And>item best. \<not> js_le (added_at item) ?wm \<Longrightarrow> ?P (Routed item best)"
      using incr(2) by (cases ?wm) auto
    from main_incremental [where P = ?P, OF incr P1 P2]
    obtain w3 evs where s3: "state_file w3 = state_file w"
      and t3: "trace w3 = trace w @ StateRead # evs" and p3: "list_all ?P evs"
      and alt: "(\<exists>e. main env w = (Inl e, w3)) \<or>
            (\<exists>us. main env w = writeState env us w3 \<and> ?wm \<le> lastProcessedAddedAt us)"
      by auto
    from alt assms obtain us where ws: "writeState env us w3 = (Inr u, w')"
      and le: "?wm \<le> lastProcessedAddedAt us" by auto
    then have w': "w' = w3\<lparr>trace := trace w3 @ [StateWrite us], ops := Suc (ops w3),
                      state_file := Holds us\<rparr>"
      by (auto simp add: writeState_eq split: if_splits)
    have "persisted_watermark w \<le> persisted_watermark w'"
      using le by (simp add: w' persisted_watermark_def incr(1))
    moreover have "new_events env w = StateRead # evs @ [StateWrite us]"
      by (simp add: new_events_def assms w' t3)
    then have "routed_after_watermark (env, w)"
      using p3 by (simp add: routed_after_watermark_def persisted_watermark_def incr(1)
          cong: Event.case_cong)
    ultimately show ?thesis by simp
  qed
  from both show "persisted_watermark w \<le> persisted_watermark w'" by simp
  from both show "routed_after_watermark (env, w)" by simp
qed

text \<open>
  What the code guarantees, in the order in which it compares the timestamps (as
  strings): in every sequence of successful runs, each starting from the state file the
  previous one left, the sequence of persisted watermarks is sorted, and every track a
  run routes has a timestamp strictly above the watermark the run started with.
\<close>

lemma watermark_sorted_as_strings:
  assumes "successful_runs sf runs"
  shows "sorted (watermark_of sf # map watermark_after runs)
         \<and> list_all routed_after_watermark runs"
  using assms
proof (induction runs arbitrary: sf)
  case Nil
  show ?case by simp
next
  case (Cons run runs)
  obtain env w where run: "run = (env, w)" by (cases run)
  obtain r w' where mw: "main env w = (r, w')" by (cases "main env w")
  from Cons.prems have sf: "state_file w = sf" by (simp add: run)
  from Cons.prems mw obtain u where r: "r = Inr u"
    by (cases r) (simp_all add: run)
  from mw r have m: "main env w = (Inr u, w')" by simp
  from Cons.prems m have rest: "successful_runs (state_file w') runs"
    by (simp add: run)
  from main_success [OF m] have le: "persisted_watermark w \<le> persisted_watermark w'"
    and ro: "routed_after_watermark (env, w)" by simp_all
  have a: "watermark_after run = watermark_of (state_file w')"
    by (simp add: watermark_after_def run m persisted_watermark_def watermark_of_def)
  have b: "watermark_of sf \<le> watermark_of (state_file w')"
    using le sf by (simp add: persisted_watermark_def watermark_of_def)
  from Cons.IH [OF rest]
  have s: "sorted (watermark_of (state_file w') # map watermark_after runs)"
    and rr: "list_all routed_after_watermark runs" by simp_all
  have "sorted (watermark_of sf # watermark_of (state_file w') # map watermark_after runs)"
    using s b by auto
  with a rr ro run show ?case by simp
qed

lemma watermark_sorted_as_strings_example:
  "successful_runs Absent [(env0, world0), (env0, world1)]
   \<and> map watermark_after [(env0, world0), (env0, world1)]
       = [Some ''2024-06-02T00:00:00.000Z'', Some ''2024-06-03T10:00:00Z'']
   \<and> sorted [None, Some ''2024-06-02T00:00:00.000Z'', Some ''2024-06-03T10:00:00Z'']
   \<and> new_events env0 world1 \<noteq> []
   \<and> list_all routed_after_watermark [(env0, world0), (env0, world1)]"
proof -
  have f: "\<not> truthy (persisted_watermark world0)"
    by (simp add: persisted_watermark_def world0_def)
  have m0: "main env0 world0 =
       (Inr (),
        world0\<lparr>trace := [StateRead, StateWrite state1], ticks := 1, ops := 1,
          state_file := Holds state1\<rparr>)"
    using main_first_run [OF f, of env0]
    by (simp add: env0_def world0_def first_run_state_def state1_def)
  have m1: "fst (main env0 world1) = Inr ()
     \<and> persisted_watermark (snd (main env0 world1)) = Some ''2024-06-03T10:00:00Z''"
    by (simp add: eval_defs env0_def world1_def world0_def state1_def persisted_watermark_def)
  have sr: "successful_runs Absent [(env0, world0), (env0, world1)]"
    using m1 by (simp add: m0 case_prod_beta) (simp add: world0_def world1_def)
  have wa: "map watermark_after [(env0, world0), (env0, world1)]
       = [Some ''2024-06-02T00:00:00.000Z'', Some ''2024-06-03T10:00:00Z'']"
    using m1 by (simp add: watermark_after_def m0 persisted_watermark_def state1_def)
  from watermark_sorted_as_strings [OF sr]
  have "sorted (watermark_of Absent # map watermark_after [(env0, world0), (env0, world1)])"
    and la: "list_all routed_after_watermark [(env0, world0), (env0, world1)]"
    by simp_all
  then have so: "sorted [None, Some ''2024-06-02T00:00:00.000Z'', Some ''2024-06-03T10:00:00Z'']"
    unfolding wa by (simp add: watermark_of_def)
  have ne: "new_events env0 world1 \<noteq> []"
    by (simp add: new_events_def eval_defs env0_def world1_def world0_def state1_def)
  from sr wa so ne la show ?thesis by blast
qed


text \<open>
  Claim C2 says that over successful runs the persisted watermark never decreases, and
  that no liked track whose timestamp is at or before the watermark at the start of a
  run is routed. The code compares the timestamps as strings, and its timestamps come
  in two forms: the first run's watermark is \<^verbatim>\<open>new Date().toISOString()\<close>, with
  milliseconds, and the catalog's \<^verbatim>\<open>added_at\<close> has none. A point sorts before \<^verbatim>\<open>Z\<close>,
  so a timestamp without milliseconds compares greater than every timestamp of the same
  second with them. On the input below the claim fails: the first run, at
  10:00:00.500, writes that watermark; the track liked at 10:00:00, before it, is
  routed by the next run; and that run sets the watermark to 10:00:00, back in time.
\<close>

theorem watermark_moves_back_in_time:
  "fst (main envB world0) = Inr ()
   \<and> state_file (snd (main envB world0)) = state_file worldB
   \<and> persisted_watermark worldB = Some ''2024-06-03T10:00:00.500Z''
   \<and> earlier (added_at likeB) ''2024-06-03T10:00:00.500Z''
   \<and> fst (main envB' worldB) = Inr ()
   \<and> Routed likeB ''plA'' \<in> set (new_events envB' worldB)
   \<and> persisted_watermark (snd (main envB' worldB)) = Some ''2024-06-03T10:00:00Z''
   \<and> earlier ''2024-06-03T10:00:00Z'' ''2024-06-03T10:00:00.500Z''"
proof -
  have f: "\<not> truthy (persisted_watermark world0)"
    by (simp add: persisted_watermark_def world0_def)
  have a: "fst (main envB world0) = Inr ()
           \<and> state_file (snd (main envB world0)) = state_file worldB"
    using main_first_run [OF f, of envB]
    by (simp add: envB_def env0_def world0_def worldB_def first_run_state_def)
  have b: "persisted_watermark worldB = Some ''2024-06-03T10:00:00.500Z''"
    by (simp add: persisted_watermark_def worldB_def)
  have c: "earlier (added_at likeB) ''2024-06-03T10:00:00.500Z''"
    "earlier ''2024-06-03T10:00:00Z'' ''2024-06-03T10:00:00.500Z''"
    by (simp_all add: earlier_def iso_seconds_def iso_millis_def digit_def likeB_def)
  have d: "fst (main envB' worldB) = Inr ()
     \<and> Routed likeB ''plA'' \<in> set (new_events envB' worldB)
     \<and> persisted_watermark (snd (main envB' worldB)) = Some ''2024-06-03T10:00:00Z''"
    by (simp add: new_events_def eval_defs envB'_def envB_def env0_def worldB_def world0_def
        likeB_def persisted_watermark_def)
  from a b c d show ?thesis by simp
qed


end
